theory Spec2Isabelle
  imports Complex_Main
begin

section \<open>Strings\<close>

text \<open>
  A JavaScript string is modelled as a \<^typ>\<open>string\<close> whose characters are the code points
  U+0000 to U+00FF. \<open>String.prototype.toLowerCase\<close> maps the letters A-Z and the Latin-1
  capitals U+00C0 to U+00DE (the multiplication sign U+00D7 apart) to the code point 32
  above, and leaves every other code point of that range alone.
\<close>

definition lower_char :: "char \<Rightarrow> char" where
  "lower_char c =
     (let n = (of_char c :: nat)
      in if (65 \<le> n \<and> n \<le> 90) \<or> (192 \<le> n \<and> n \<le> 222 \<and> n \<noteq> 215)
         then char_of (n + 32) else c)"

definition toLowerCase :: "string \<Rightarrow> string" where
  "toLowerCase s = map lower_char s"

text \<open>Decimal rendering of a natural number, as \<open>Number.prototype.toString\<close> gives it.\<close>

definition digit_char :: "nat \<Rightarrow> char" where
  "digit_char d = ''0123456789'' ! d"

function natToString :: "nat \<Rightarrow> string" where
  "natToString n =
     (if n < 10 then [digit_char n]
      else natToString (n div 10) @ [digit_char (n mod 10)])"
  by pat_completeness auto
termination
  by (relation "measure id") auto

declare natToString.simps [simp del]

text \<open>
  \<open>x.toFixed(2)\<close> for a non-negative number below \<open>1e21\<close>: the integer \<open>n\<close> with
  \<open>n / 100\<close> nearest to \<open>x\<close> (the larger one at a tie), printed with two decimals.
\<close>

definition toFixed2 :: "rat \<Rightarrow> string" where
  "toFixed2 x =
     (let n = nat \<lfloor>x * 100 + 1 / 2\<rfloor>
      in natToString (n div 100) @ ''.'' @
         [digit_char ((n mod 100) div 10), digit_char (n mod 10)])"

section \<open>Numbers\<close>

text \<open>
  A JavaScript number that is finite is modelled by the rational it denotes. \<open>toDouble\<close>
  rounds a rational to the nearest IEEE 754 binary64 value, ties to the even significand:
  53 significant bits at the binary exponent of the argument, and the fixed exponent
  \<open>-1074\<close> in the subnormal range. The sum and the quotient of two doubles are the
  rounded exact results. \<open>NaN\<close> and the infinities (a result of magnitude \<open>2 ^ 1024\<close> or
  more) are outside the model.
\<close>

function log2floor :: "int \<Rightarrow> int" where
  "log2floor n = (if n < 2 then 0 else 1 + log2floor (n div 2))"
  by pat_completeness auto
termination
  by (relation "measure nat") auto

declare log2floor.simps [simp del]

definition pow2 :: "int \<Rightarrow> rat" where
  "pow2 e = (if 0 \<le> e then 2 ^ nat e else 1 / 2 ^ nat (- e))"

definition roundHalfEven :: "rat \<Rightarrow> int" where
  "roundHalfEven m =
     (let f = \<lfloor>m\<rfloor>; r = m - of_int f
      in if r < 1 / 2 then f
         else if 1 / 2 < r then f + 1
         else if even f then f else f + 1)"

definition toDouble :: "rat \<Rightarrow> rat" where
  "toDouble x =
     (if x = 0 then 0
      else (let a = \<bar>x\<bar>;
                d = log2floor (fst (quotient_of a)) - log2floor (snd (quotient_of a));
                k = (if pow2 d \<le> a then d else d - 1);
                e = max (k - 52) (- 1074)
            in sgn x * of_int (roundHalfEven (a / pow2 e)) * pow2 e))"

definition doubleAdd :: "rat \<Rightarrow> rat \<Rightarrow> rat" where
  "doubleAdd x y = toDouble (x + y)"

definition doubleDiv :: "rat \<Rightarrow> rat \<Rightarrow> rat" where
  "doubleDiv x y = toDouble (x / y)"

section \<open>Objects used as dictionaries\<close>

text \<open>
  An object used as a dictionary is an association list with distinct keys, in the order
  the properties were created. \<open>Object.keys\<close> and \<open>Object.entries\<close> do not list them in
  that order: the keys that are array indices (the decimal form, without a leading zero, of
  an integer from 0 to \<open>2 ^ 32 - 2\<close>) come first, in ascending numeric order, and the other
  keys follow in creation order. \<open>ownKeysOrder\<close> puts the entries in that order.
\<close>

definition isDigit :: "char \<Rightarrow> bool" where
  "isDigit c \<longleftrightarrow> 48 \<le> (of_char c :: nat) \<and> (of_char c :: nat) \<le> 57"

definition digitsValue :: "string \<Rightarrow> int" where
  "digitsValue s = foldl (\<lambda>n c. 10 * n + (int (of_char c) - 48)) 0 s"

definition arrayIndex :: "string \<Rightarrow> int option" where
  "arrayIndex s =
     (if s \<noteq> [] \<and> list_all isDigit s \<and> (s = ''0'' \<or> hd s \<noteq> CHR ''0'')
         \<and> digitsValue s \<le> 4294967294
      then Some (digitsValue s) else None)"

definition indexRank :: "string \<Rightarrow> int" where
  "indexRank k = (case arrayIndex k of Some n \<Rightarrow> n | None \<Rightarrow> 0)"

definition ownKeysOrder :: "(string \<times> 'a) list \<Rightarrow> (string \<times> 'a) list" where
  "ownKeysOrder obj =
     sort_key (\<lambda>(k, v). indexRank k) (filter (\<lambda>(k, v). arrayIndex k \<noteq> None) obj)
       @ filter (\<lambda>(k, v). arrayIndex k = None) obj"

text \<open>
  A property read \<open>obj[k]\<close> on an object literal follows the prototype chain: a key the
  object does not own is looked up in \<open>Object.prototype\<close>. Its properties are the twelve
  below; each value is truthy. Eleven are native functions, whose conversion to a string
  is the text V8 prints for them, and \<open>__proto__\<close> yields \<open>Object.prototype\<close> itself.
\<close>

definition nativeFunctionText :: "string \<Rightarrow> string" where
  "nativeFunctionText name = ''function '' @ name @ ''() { [native code] }''"

definition objectPrototypeText :: "string \<Rightarrow> string option" where
  "objectPrototypeText k =
     (if k = ''constructor'' then Some (nativeFunctionText ''Object'')
      else if k = ''__proto__'' then Some ''[object Object]''
      else if k \<in> set [''__defineGetter__'', ''__defineSetter__'', ''hasOwnProperty'',
                        ''__lookupGetter__'', ''__lookupSetter__'', ''isPrototypeOf'',
                        ''propertyIsEnumerable'', ''toString'', ''valueOf'', ''toLocaleString'']
      then Some (nativeFunctionText k)
      else None)"

section \<open>The detection microservice: classes, normalisation, aggregation\<close>

definition EPP_CLASSES :: "string list" where
  "EPP_CLASSES =
     [''barbijo'', ''botas'', ''camisa_jean'', ''casco'',
      ''chaleco'', ''guantes'', ''lentes'', ''pantalon'']"

definition CLASS_MAPPING :: "(string \<times> string) list" where
  "CLASS_MAPPING =
     [(''mask'', ''barbijo''), (''masks'', ''barbijo''),
      (''boot'', ''botas''), (''boots'', ''botas''),
      (''shirt'', ''camisa_jean''), (''shirts'', ''camisa_jean''),
      (''helmet'', ''casco''), (''helmets'', ''casco''), (''cascos'', ''casco''),
      (''vest'', ''chaleco''), (''vests'', ''chaleco''),
      (''glove'', ''guantes''), (''gloves'', ''guantes''),
      (''glasses'', ''lentes''), (''glass'', ''lentes''),
      (''pant'', ''pantalon''), (''pants'', ''pantalon''),
      (''barbijo'', ''barbijo''), (''botas'', ''botas''),
      (''camisa_jean'', ''camisa_jean''), (''casco'', ''casco''),
      (''chaleco'', ''chaleco''), (''guantes'', ''guantes''),
      (''lentes'', ''lentes''), (''pantalon'', ''pantalon'')]"

text \<open>
  \<open>CLASS_MAPPING\<close> is an object literal, so \<open>CLASS_MAPPING[k]\<close> is a property read that
  follows the prototype chain: a key the table does not own is looked up in
  \<open>Object.prototype\<close>. Labels arrive lowercased, and the only properties of
  \<open>Object.prototype\<close> whose names are unchanged by lowercasing are \<open>constructor\<close> (the
  function \<open>Object\<close>) and \<open>__proto__\<close> (the object \<open>Object.prototype\<close>); both values are
  truthy. The value read is used as a property key afterwards, which converts it to a
  string; \<open>inherited_key\<close> is that string. It is \<open>objectPrototypeText\<close> on lowercase keys
  (lemma \<open>objectPrototypeText_lowered\<close>).
\<close>

definition inherited_key :: "string \<Rightarrow> string option" where
  "inherited_key k =
     (if k = ''constructor'' then Some ''function Object() { [native code] }''
      else if k = ''__proto__'' then Some ''[object Object]''
      else None)"

text \<open>
  A detection of the workflow's response; its numbers are doubles.
  \<open>(det.class || det.class_name || '').toLowerCase()\<close>: an empty string is falsy.
\<close>

record raw_detection =
  det_class :: "string option"
  det_class_name :: "string option"
  det_confidence :: rat
  det_x :: rat
  det_y :: rat
  det_width :: rat
  det_height :: rat

definition truthy_string :: "string option \<Rightarrow> bool" where
  "truthy_string s = (case s of None \<Rightarrow> False | Some t \<Rightarrow> t \<noteq> [])"

definition originalClassOf :: "raw_detection \<Rightarrow> string" where
  "originalClassOf det =
     toLowerCase
       (if truthy_string (det_class det) then the (det_class det)
        else if truthy_string (det_class_name det) then the (det_class_name det)
        else [])"

text \<open>\<open>CLASS_MAPPING[originalClass] || originalClass\<close>, as the group key it becomes.\<close>

definition classNameOf :: "string \<Rightarrow> string" where
  "classNameOf originalClass =
     (case map_of CLASS_MAPPING originalClass of
        Some c \<Rightarrow> c
      | None \<Rightarrow>
          (case inherited_key originalClass of
             Some k \<Rightarrow> k
           | None \<Rightarrow> originalClass))"

text \<open>The normaliser: lowercase the label, then look it up.\<close>

definition normalizeLabel :: "string \<Rightarrow> string" where
  "normalizeLabel label = classNameOf (toLowerCase label)"

record bbox =
  bbox_x :: rat
  bbox_y :: rat
  bbox_width :: rat
  bbox_height :: rat

record grouped_item =
  item_confidence :: rat
  item_bbox :: bbox
  item_originalClass :: string

record class_summary =
  cs_count :: nat
  cs_avgConfidence :: rat
  cs_detections :: "grouped_item list"

text \<open>
  \<open>groupedDetections\<close> is an object used as a dictionary, filled in the order the class
  names first occur. \<open>push_group\<close> is the body of the \<open>forEach\<close>: create the group when
  the key is new, then append.
\<close>

fun push_group :: "(string \<times> grouped_item list) list \<Rightarrow> string \<Rightarrow> grouped_item
    \<Rightarrow> (string \<times> grouped_item list) list" where
  "push_group [] k v = [(k, [v])]"
| "push_group ((k', vs) # g) k v =
     (if k' = k then (k', vs @ [v]) # g else (k', vs) # push_group g k v)"

definition itemOf :: "raw_detection \<Rightarrow> grouped_item" where
  "itemOf det =
     \<lparr>item_confidence = det_confidence det,
      item_bbox = \<lparr>bbox_x = det_x det, bbox_y = det_y det,
                   bbox_width = det_width det, bbox_height = det_height det\<rparr>,
      item_originalClass = originalClassOf det\<rparr>"

definition group_step :: "(string \<times> grouped_item list) list \<Rightarrow> raw_detection
    \<Rightarrow> (string \<times> grouped_item list) list" where
  "group_step g det =
     (let originalClass = originalClassOf det;
          className = classNameOf originalClass
      in push_group g className (itemOf det))"

definition groupDetections :: "raw_detection list \<Rightarrow> (string \<times> grouped_item list) list" where
  "groupDetections dets = foldl group_step [] dets"

text \<open>Every member of a group was put there under the key its label normalises to.\<close>

definition group_ok :: "(string \<times> grouped_item list) list \<Rightarrow> bool" where
  "group_ok g \<longleftrightarrow> (\<forall>k items. map_of g k = Some items \<longrightarrow>
      (\<forall>it \<in> set items. classNameOf (item_originalClass it) = k))"

text \<open>
  \<open>items.reduce((sum, item) => sum + item.confidence, 0) / items.length\<close>, in double
  arithmetic: every addition and the division round. A group is never empty.
\<close>

definition summarise :: "grouped_item list \<Rightarrow> class_summary" where
  "summarise items =
     \<lparr>cs_count = length items,
      cs_avgConfidence =
        doubleDiv (foldl (\<lambda>sum item. doubleAdd sum (item_confidence item)) 0 items)
          (of_nat (length items)),
      cs_detections = items\<rparr>"

text \<open>
  The response of the detection workflow: the list \<open>outputs\<close> (empty when the field is
  absent), each output with its \<open>predictions\<close> field, which is an array, an object holding
  an array \<open>predictions\<close>, or anything else.
\<close>

datatype predictions_block =
  PredArray "raw_detection list"
| PredNested "raw_detection list"
| PredOther

record processed =
  totalDetections :: nat
  detectionsByClass :: "(string \<times> class_summary) list"
  allDetections :: "raw_detection list"

definition no_detections :: processed where
  "no_detections = \<lparr>totalDetections = 0, detectionsByClass = [], allDetections = []\<rparr>"

text \<open>
  The second loop runs over \<open>Object.keys(groupedDetections)\<close> and fills the object
  \<open>detectionsByClass\<close>, which is given here as the list of its entries in the order
  \<open>Object.keys\<close> lists them.
\<close>

definition aggregate :: "raw_detection list \<Rightarrow> processed" where
  "aggregate detectionsArray =
     \<lparr>totalDetections = length detectionsArray,
      detectionsByClass = map (\<lambda>(className, items). (className, summarise items))
                              (ownKeysOrder (groupDetections detectionsArray)),
      allDetections = detectionsArray\<rparr>"

fun processDetections :: "predictions_block list \<Rightarrow> processed" where
  "processDetections [] = no_detections"
| "processDetections (PredArray dets # _) = aggregate dets"
| "processDetections (PredNested dets # _) = aggregate dets"
| "processDetections (PredOther # _) = no_detections"

record validation =
  isComplete :: bool
  detected :: "string list"
  missing :: "string list"
  completionRate :: string

text \<open>
  \<open>validateCompletePPE\<close> reads only the keys of its argument, an object given as the list
  of its entries in the order \<open>Object.keys\<close> lists them. The number handed to
  \<open>toFixed\<close> is \<open>completionPercent\<close>; it is a multiple of \<open>12.5\<close>, so the division and the
  product are exact in double precision.
\<close>

definition completionPercent :: "(string \<times> 'a) list \<Rightarrow> rat" where
  "completionPercent dbc =
     of_nat (length (map fst dbc)) / of_nat (length EPP_CLASSES) * 100"

definition validateCompletePPE :: "(string \<times> 'a) list \<Rightarrow> validation" where
  "validateCompletePPE dbc =
     (let detected = map fst dbc;
          missing = filter (\<lambda>cls. cls \<notin> set detected) EPP_CLASSES
      in \<lparr>isComplete = (length missing = 0),
          detected = detected,
          missing = missing,
          completionRate = toFixed2 (completionPercent dbc)\<rparr>)"

text \<open>Concrete inputs for the microservice.\<close>

definition person_det :: raw_detection where
  "person_det =
     \<lparr>det_class = Some ''Person'', det_class_name = None, det_confidence = 7 / 8,
      det_x = 10, det_y = 20, det_width = 30, det_height = 40\<rparr>"

definition nine_detections :: "raw_detection list" where
  "nine_detections =
     map (\<lambda>l. person_det\<lparr>det_class := Some l\<rparr>)
       [''Helmet'', ''glasses'', ''Gloves'', ''boots'', ''vest'', ''shirt'', ''pants'', ''mask'',
        ''Person'']"

definition numbered_detections :: "raw_detection list" where
  "numbered_detections =
     map (\<lambda>l. person_det\<lparr>det_class := Some l\<rparr>) [''Helmet'', ''7'', ''03'', ''3'', ''Person'']"

definition two_confidences :: "raw_detection list" where
  "two_confidences =
     [person_det\<lparr>det_confidence := 3602879701896397 / 36028797018963968\<rparr>,
      person_det\<lparr>det_confidence := 3602879701896397 / 18014398509481984\<rparr>]"

section \<open>The dashboard: session state, adaptive scheduler and compliance gate\<close>

text \<open>
  \<open>ppe_status\<close> is an object read with \<open>Object.entries\<close>, so it is the list of its
  entries in key order. The optional fields of a response are options; \<open>ppe_status\<close> is
  one too, because the handler tests it for presence.
\<close>

type_synonym PPEStatus = "(string \<times> bool) list"

record Detection =
  d_class :: string
  d_confidence :: rat
  d_bbox :: "rat list"

record BodyRegion =
  br_name :: string
  br_bbox :: "rat list"
  br_keypoints :: "rat list list"
  br_confidence :: rat

record DetectionResponse =
  ppe_status :: "PPEStatus option"
  resp_detections :: "Detection list option"
  is_compliant :: bool
  has_person :: "bool option"
  body_regions :: "BodyRegion list option"
  image_width :: "int option"
  image_height :: "int option"

datatype estado = Completo | Incompleto

text \<open>
  A history record. \<open>rec_id\<close> is \<open>Date.now()\<close> (the source stores its decimal string);
  \<open>rec_ahora\<close> is the instant \<open>new Date()\<close> whose Spanish date and time renderings are
  the fields \<open>fecha\<close> and \<open>hora\<close>. One handler run reads the clock once in the model.
\<close>

record DetectionRecord =
  rec_id :: int
  rec_ahora :: int
  rec_estado :: estado
  rec_faltantes :: string
  rec_ppeStatus :: "PPEStatus option"

record config =
  maxRecords :: int
  alertType :: string
  alertVolume :: rat
  alertRepeatInterval :: int

datatype alert_call = Trigger string rat int | Reset

text \<open>
  A pending \<open>window.setTimeout\<close>. The callback of \<open>startDetection\<close> closes over the
  constant \<open>isPaused\<close> of the render that created \<open>startDetection\<close>: \<open>StartTick p\<close>
  carries that value. The callback of \<open>handleResume\<close> reads no gate state at all.
\<close>

datatype tick = StartTick bool | ResumeTick

record timer =
  timer_id :: nat
  timer_delay :: int
  timer_tick :: tick

record dashboard =
  ppeStatus :: PPEStatus
  isDetecting :: bool
  isConnected :: bool
  detectionRecords :: "DetectionRecord list"
  cameraActive :: bool
  hasDetection :: bool
  detections :: "Detection list"
  bodyRegions :: "BodyRegion list"
  processedImageSize :: "(int \<times> int) option"
  isSafetyModalOpen :: bool
  isPaused :: bool
  selectedHistoricalStatus :: "PPEStatus option"
  detectionIntervalRef :: "nat option"
  isProcessingRef :: bool
  lastSendTimeRef :: int
  adaptiveIntervalRef :: int
  latencyHistoryRef :: "int list"
  pauseTimeoutRef :: "nat option"
  cameraFeedRef :: bool
  wsOpen :: bool
  pendingTimers :: "timer list"
  nextTimerId :: nat
  captures :: nat
  sentFrames :: "(string \<times> rat) list"
  alertCalls :: "alert_call list"

text \<open>
  Beyond the React state and the refs of the component, the record holds what the
  component acts on: whether \<open>cameraFeedRef.current\<close> is set, whether
  \<open>wsRef.current?.isConnected()\<close> holds, the timers it has pending in the window, the
  number of \<open>handleCapture\<close> calls, the frames handed to \<open>wsRef.current.send\<close>, and the
  calls made to the alert service.
\<close>

definition neutralStatus :: PPEStatus where
  "neutralStatus =
     [(''casco'', False), (''lentes'', False), (''guantes'', False), (''botas'', False),
      (''chaleco'', False), (''camisa'', False), (''pantalon'', False), (''barbijo'', False),
      (''epp_completo'', False)]"

text \<open>\<open>arr.slice(0, e)\<close>: a negative end counts from the end of the array.\<close>

definition slice0 :: "'a list \<Rightarrow> int \<Rightarrow> 'a list" where
  "slice0 xs e = (if e < 0 then take (nat (int (length xs) + e)) xs else take (nat e) xs)"

definition initialDashboard :: "config \<Rightarrow> DetectionRecord list option \<Rightarrow> dashboard" where
  "initialDashboard cfg stored =
     \<lparr>ppeStatus = neutralStatus,
      isDetecting = False,
      isConnected = False,
      detectionRecords = (case stored of None \<Rightarrow> [] | Some parsed \<Rightarrow> slice0 parsed (maxRecords cfg)),
      cameraActive = False,
      hasDetection = False,
      detections = [],
      bodyRegions = [],
      processedImageSize = None,
      isSafetyModalOpen = False,
      isPaused = False,
      selectedHistoricalStatus = None,
      detectionIntervalRef = None,
      isProcessingRef = False,
      lastSendTimeRef = 0,
      adaptiveIntervalRef = 1500,
      latencyHistoryRef = [],
      pauseTimeoutRef = None,
      cameraFeedRef = False,
      wsOpen = False,
      pendingTimers = [],
      nextTimerId = 1,
      captures = 0,
      sentFrames = [],
      alertCalls = []\<rparr>"

definition labels :: "(string \<times> string) list" where
  "labels =
     [(''casco'', ''Casco''), (''lentes'', ''Lentes''), (''guantes'', ''Guantes''),
      (''botas'', ''Botas''), (''chaleco'', ''Chaleco''), (''camisa'', ''Camisa''),
      (''pantalon'', ''Pantal'' @ [CHR 0xF3] @ ''n''), (''barbijo'', ''Barbijo'')]"

text \<open>
  \<open>labels[key] || key\<close>, with the key as the response spells it; \<open>join\<close> converts an
  inherited value to its text.
\<close>

definition labelOf :: "string \<Rightarrow> string" where
  "labelOf key =
     (case map_of labels key of
        Some l \<Rightarrow> l
      | None \<Rightarrow> (case objectPrototypeText key of Some k \<Rightarrow> k | None \<Rightarrow> key))"

fun join_comma :: "string list \<Rightarrow> string" where
  "join_comma [] = []"
| "join_comma [x] = x"
| "join_comma (x # y # ys) = x @ '', '' @ join_comma (y # ys)"

definition crearRegistroDesdeDeteccion :: "int \<Rightarrow> DetectionResponse \<Rightarrow> DetectionRecord" where
  "crearRegistroDesdeDeteccion ahora data =
     (let faltantesArray =
            map (\<lambda>(key, detected). labelOf key)
              (filter (\<lambda>(key, detected). if key = ''epp_completo'' then False else \<not> detected)
                 (case ppe_status data of None \<Rightarrow> [] | Some st \<Rightarrow> st));
          faltantesTexto =
            (if is_compliant data \<or> length faltantesArray = 0 then ''Ninguno''
             else join_comma faltantesArray)
      in \<lparr>rec_id = ahora,
          rec_ahora = ahora,
          rec_estado = (if is_compliant data then Completo else Incompleto),
          rec_faltantes = faltantesTexto,
          rec_ppeStatus = ppe_status data\<rparr>)"

text \<open>The adaptive interval: lines 208 to 225 of the handler.\<close>

definition tierOf :: "int list \<Rightarrow> int" where
  "tierOf window =
     (let avgLatency = (of_int (sum_list window) :: rat) / of_nat (length window)
      in if avgLatency < 300 then 1000
         else if avgLatency < 600 then 1500
         else 2500)"

definition recordLatency :: "int \<Rightarrow> dashboard \<Rightarrow> dashboard" where
  "recordLatency latency s =
     (let pushed = latencyHistoryRef s @ [latency];
          window = (if length pushed > 10 then tl pushed else pushed)
      in s\<lparr>latencyHistoryRef := window,
            adaptiveIntervalRef :=
              (if length window \<ge> 5 then tierOf window else adaptiveIntervalRef s)\<rparr>)"

text \<open>The updater passed to \<open>setDetectionRecords\<close>.\<close>

definition prependRecord :: "config \<Rightarrow> DetectionRecord \<Rightarrow> DetectionRecord list
    \<Rightarrow> DetectionRecord list" where
  "prependRecord cfg newRecord prev = newRecord # slice0 prev (maxRecords cfg - 1)"

definition clearTimeout :: "nat option \<Rightarrow> timer list \<Rightarrow> timer list" where
  "clearTimeout ref ts =
     (case ref of None \<Rightarrow> ts | Some i \<Rightarrow> filter (\<lambda>t. timer_id t \<noteq> i) ts)"

text \<open>The branch of the handler taken on a verdict that is not compliant.\<close>

definition pauseDetection :: "config \<Rightarrow> dashboard \<Rightarrow> dashboard" where
  "pauseDetection cfg s =
     s\<lparr>alertCalls := alertCalls s @
            [Trigger (alertType cfg) (alertVolume cfg) (alertRepeatInterval cfg)],
       isPaused := True,
       isSafetyModalOpen := True,
       pendingTimers := clearTimeout (pauseTimeoutRef s)
                          (clearTimeout (detectionIntervalRef s) (pendingTimers s)),
       detectionIntervalRef := None,
       pauseTimeoutRef := None\<rparr>"

definition truthy_size :: "int option \<Rightarrow> bool" where
  "truthy_size n = (case n of None \<Rightarrow> False | Some k \<Rightarrow> k \<noteq> 0)"

definition handleDetectionResponse :: "config \<Rightarrow> int \<Rightarrow> DetectionResponse \<Rightarrow> dashboard
    \<Rightarrow> dashboard" where
  "handleDetectionResponse cfg now data s =
     (let latency = now - lastSendTimeRef s
      in if ppe_status data = None then
           s\<lparr>isDetecting := False, isProcessingRef := False\<rparr>
         else if has_person data = Some False then
           s\<lparr>ppeStatus := neutralStatus,
             detections := [],
             bodyRegions := [],
             hasDetection := False,
             isDetecting := False,
             isProcessingRef := False\<rparr>
         else
           (let s1 = recordLatency latency s;
                s2 = s1\<lparr>ppeStatus := the (ppe_status data),
                        detections := (case resp_detections data of None \<Rightarrow> [] | Some ds \<Rightarrow> ds),
                        bodyRegions := (case body_regions data of None \<Rightarrow> [] | Some bs \<Rightarrow> bs),
                        processedImageSize :=
                          (if truthy_size (image_width data) \<and> truthy_size (image_height data)
                           then Some (the (image_width data), the (image_height data))
                           else processedImageSize s1),
                        isDetecting := False,
                        isProcessingRef := False,
                        hasDetection := (case has_person data of None \<Rightarrow> False | Some b \<Rightarrow> b)\<rparr>;
                newRecord = crearRegistroDesdeDeteccion now data;
                s3 = s2\<lparr>detectionRecords := prependRecord cfg newRecord (detectionRecords s2)\<rparr>;
                s4 = s3\<lparr>detectionRecords := prependRecord cfg newRecord (detectionRecords s3)\<rparr>
            in if \<not> is_compliant data then pauseDetection cfg s4
               else s4\<lparr>alertCalls := alertCalls s4 @ [Reset]\<rparr>))"

text \<open>\<open>scheduleNextDetection\<close>: arm one timer for the interval current at this moment.\<close>

definition scheduleNextDetection :: "tick \<Rightarrow> dashboard \<Rightarrow> dashboard" where
  "scheduleNextDetection k s =
     s\<lparr>pendingTimers := pendingTimers s @
          [\<lparr>timer_id = nextTimerId s, timer_delay = adaptiveIntervalRef s, timer_tick = k\<rparr>],
       nextTimerId := nextTimerId s + 1,
       detectionIntervalRef := Some (nextTimerId s)\<rparr>"

text \<open>
  The capture block shared by both callbacks: \<open>now\<close> is \<open>Date.now()\<close> and \<open>imageData\<close>
  what \<open>handleCapture\<close> returns (null or a string; the empty string is falsy).
\<close>

definition captureAndSend :: "int \<Rightarrow> string option \<Rightarrow> dashboard \<Rightarrow> dashboard" where
  "captureAndSend now imageData s =
     (if \<not> isProcessingRef s then
        (let s1 = s\<lparr>isProcessingRef := True, isDetecting := True, lastSendTimeRef := now,
                     captures := captures s + 1\<rparr>
         in if truthy_string imageData
            then s1\<lparr>sentFrames := sentFrames s1 @ [(the imageData, 3 / 10)]\<rparr>
            else s1\<lparr>isProcessingRef := False, isDetecting := False\<rparr>)
      else s)"

fun runTick :: "tick \<Rightarrow> int \<Rightarrow> string option \<Rightarrow> dashboard \<Rightarrow> dashboard" where
  "runTick (StartTick p) now imageData s =
     (if \<not> cameraFeedRef s \<or> \<not> wsOpen s \<or> p then s
      else (let s1 = captureAndSend now imageData s
            in if \<not> p then scheduleNextDetection (StartTick p) s1 else s1))"
| "runTick ResumeTick now imageData s =
     (if \<not> cameraFeedRef s \<or> \<not> wsOpen s then s
      else scheduleNextDetection ResumeTick (captureAndSend now imageData s))"

definition startDetection :: "dashboard \<Rightarrow> dashboard" where
  "startDetection s =
     (if \<not> cameraFeedRef s \<or> \<not> wsOpen s then s
      else scheduleNextDetection (StartTick (isPaused s)) (s\<lparr>cameraActive := True\<rparr>))"

definition handleResume :: "dashboard \<Rightarrow> dashboard" where
  "handleResume s =
     (let s1 = s\<lparr>isPaused := False, isSafetyModalOpen := False, cameraActive := True\<rparr>
      in if cameraFeedRef s1 \<and> wsOpen s1 then scheduleNextDetection ResumeTick s1 else s1)"

definition stopDetection :: "dashboard \<Rightarrow> dashboard" where
  "stopDetection s =
     s\<lparr>cameraActive := False,
       isPaused := False,
       pendingTimers := clearTimeout (detectionIntervalRef s) (pendingTimers s),
       detectionIntervalRef := None,
       isDetecting := False,
       isProcessingRef := False,
       latencyHistoryRef := [],
       adaptiveIntervalRef := 1500\<rparr>"

text \<open>
  What can happen to the mounted component. The main button is disabled while
  \<open>isConnected\<close> is false and calls \<open>handleResume\<close>, \<open>stopDetection\<close> or
  \<open>startDetection\<close> according to \<open>isPaused\<close> and \<open>cameraActive\<close>; the modal shows its
  resume button only while it is open and \<open>isPaused\<close> holds; the refresh control of
  the camera feed calls \<open>stopDetection\<close>. A timer that is no longer pending cannot fire.
\<close>

datatype event =
  ClickMainButton
| ClickModalResume
| ClickRefresh
| OpenSafetyModal "PPEStatus option"
| CloseSafetyModal
| ClearHistory
| TimerFires nat int "string option"
| Message int DetectionResponse
| SocketConnected
| SocketDisconnected
| SocketError
| SocketState bool
| CameraMounted bool

definition fireTimer :: "nat \<Rightarrow> int \<Rightarrow> string option \<Rightarrow> dashboard \<Rightarrow> dashboard" where
  "fireTimer i now imageData s =
     (case find (\<lambda>t. timer_id t = i) (pendingTimers s) of
        None \<Rightarrow> s
      | Some t \<Rightarrow>
          runTick (timer_tick t) now imageData
            (s\<lparr>pendingTimers := filter (\<lambda>t. timer_id t \<noteq> i) (pendingTimers s)\<rparr>))"

fun step :: "config \<Rightarrow> dashboard \<Rightarrow> event \<Rightarrow> dashboard" where
  "step cfg s ClickMainButton =
     (if \<not> isConnected s then s
      else if isPaused s then handleResume s
      else if cameraActive s then stopDetection s
      else startDetection s)"
| "step cfg s ClickModalResume =
     (if isSafetyModalOpen s \<and> isPaused s then handleResume s else s)"
| "step cfg s ClickRefresh = stopDetection s"
| "step cfg s (OpenSafetyModal historical) =
     (case historical of
        None \<Rightarrow> s\<lparr>isSafetyModalOpen := True\<rparr>
      | Some st \<Rightarrow> s\<lparr>selectedHistoricalStatus := Some st, isSafetyModalOpen := True\<rparr>)"
| "step cfg s CloseSafetyModal =
     s\<lparr>isSafetyModalOpen := False, selectedHistoricalStatus := None\<rparr>"
| "step cfg s ClearHistory = s\<lparr>detectionRecords := []\<rparr>"
| "step cfg s (TimerFires i now imageData) = fireTimer i now imageData s"
| "step cfg s (Message now data) = handleDetectionResponse cfg now data s"
| "step cfg s SocketConnected = s\<lparr>isConnected := True\<rparr>"
| "step cfg s SocketDisconnected = s\<lparr>isConnected := False\<rparr>"
| "step cfg s SocketError = s\<lparr>isConnected := False\<rparr>"
| "step cfg s (SocketState b) = s\<lparr>wsOpen := b\<rparr>"
| "step cfg s (CameraMounted b) = s\<lparr>cameraFeedRef := b\<rparr>"

definition run :: "config \<Rightarrow> event list \<Rightarrow> dashboard \<Rightarrow> dashboard" where
  "run cfg es s = foldl (step cfg) s es"

text \<open>
  The invariant behind the gate: every pending detection timer is the one recorded in
  \<open>detectionIntervalRef\<close>, and none is pending while the session is paused or stopped.
\<close>

definition gate_inv :: "dashboard \<Rightarrow> bool" where
  "gate_inv s \<longleftrightarrow>
     (\<forall>t \<in> set (pendingTimers s). detectionIntervalRef s = Some (timer_id t)) \<and>
     (isPaused s \<longrightarrow> pendingTimers s = []) \<and>
     (\<not> cameraActive s \<longrightarrow> pendingTimers s = [])"

text \<open>Concrete inputs used to run the model.\<close>

definition example_config :: config where
  "example_config =
     \<lparr>maxRecords = 50, alertType = ''sound'', alertVolume = 1 / 2, alertRepeatInterval = 5000\<rparr>"

definition complete_status :: PPEStatus where
  "complete_status =
     [(''casco'', True), (''lentes'', True), (''guantes'', True), (''botas'', True),
      (''chaleco'', True), (''camisa'', True), (''pantalon'', True), (''barbijo'', True),
      (''epp_completo'', True)]"

definition compliant_response :: DetectionResponse where
  "compliant_response =
     \<lparr>ppe_status = Some complete_status, resp_detections = Some [], is_compliant = True,
      has_person = Some True, body_regions = None, image_width = Some 640,
      image_height = Some 360\<rparr>"

definition violation_response :: DetectionResponse where
  "violation_response =
     \<lparr>ppe_status = Some ((''casco'', True) # (''lentes'', False) # drop 2 complete_status),
      resp_detections = Some [], is_compliant = False,
      has_person = Some True, body_regions = None, image_width = Some 640,
      image_height = Some 360\<rparr>"

definition no_subject_response :: DetectionResponse where
  "no_subject_response =
     \<lparr>ppe_status = Some neutralStatus, resp_detections = Some [], is_compliant = False,
      has_person = Some False, body_regions = None, image_width = Some 640,
      image_height = Some 360\<rparr>"

text \<open>
  A session that is started, answers five frames within 100 ms each, and then meets a
  frame with the glasses missing.
\<close>

definition fast_session :: "event list" where
  "fast_session =
     [CameraMounted True, SocketState True, SocketConnected, ClickMainButton,
      TimerFires 1 1500 (Some ''frame''), Message 1600 compliant_response,
      TimerFires 2 3000 (Some ''frame''), Message 3100 compliant_response,
      TimerFires 3 4500 (Some ''frame''), Message 4600 compliant_response,
      TimerFires 4 6000 (Some ''frame''), Message 6100 compliant_response,
      TimerFires 5 7500 (Some ''frame''), Message 7600 compliant_response,
      TimerFires 6 8500 (Some ''frame''), Message 8600 violation_response]"

definition five_fast :: "(int \<times> DetectionResponse) list" where
  "five_fast = map (\<lambda>t. (t, compliant_response)) [200, 250, 300, 250, 250]"


text \<open>
  A state that no run of \<open>step\<close> reaches: the gate paused with a timer of the resume
  scheduler still pending.
\<close>

definition paused_with_timer :: dashboard where
  "paused_with_timer =
     (initialDashboard example_config None)
       \<lparr>isPaused := True, cameraActive := True, cameraFeedRef := True, wsOpen := True,
        isConnected := True, detectionIntervalRef := Some 1, nextTimerId := 2,
        pendingTimers := [\<lparr>timer_id = 1, timer_delay = 1500, timer_tick = ResumeTick\<rparr>]\<rparr>"

section \<open>The transport: the class PPEWebSocket\<close>

datatype readyState = CONNECTING | OPEN | CLOSING | CLOSED

datatype ws_callback = ReconnectTimer | HeartbeatTimer | StableTimer

record ws_timer =
  wt_id :: nat
  wt_delay :: int
  wt_callback :: ws_callback

datatype wire = Frame string rat | Ping | Pong int

datatype notification = OnConnect | OnDisconnect | OnError

text \<open>
  The fields of the class, then what the object acts on: the timers it has pending in the
  window, the delays \<open>attemptReconnect\<close> has passed to \<open>setTimeout\<close> (in call order), what
  it has handed to the socket's \<open>send\<close>, the sockets it has constructed, its calls of
  \<open>close\<close>, and the callbacks it has invoked. \<open>ws\<close> is the \<open>readyState\<close> of the socket in
  \<open>this.ws\<close>, or \<open>None\<close> for null.
\<close>

record PPEWebSocket =
  ws :: "readyState option"
  reconnectAttempts :: nat
  currentDelayIndex :: nat
  heartbeatInterval :: "nat option"
  stableConnectionTimer :: "nat option"
  connectionStartTime :: int
  isManualDisconnect :: bool
  wsTimers :: "ws_timer list"
  wsNextTimerId :: nat
  reconnectLog :: "int list"
  transmitted :: "wire list"
  socketsCreated :: nat
  closeCalls :: nat
  notifications :: "notification list"

text \<open>Which of the calls into the browser throw, for one run of a method.\<close>

record ws_env =
  ctor_throws :: bool
  send_throws :: bool

definition reconnectDelays :: "int list" where
  "reconnectDelays = [2000, 5000, 10000, 30000]"

definition newPPEWebSocket :: PPEWebSocket where
  "newPPEWebSocket =
     \<lparr>ws = None,
      reconnectAttempts = 0,
      currentDelayIndex = 0,
      heartbeatInterval = None,
      stableConnectionTimer = None,
      connectionStartTime = 0,
      isManualDisconnect = False,
      wsTimers = [],
      wsNextTimerId = 1,
      reconnectLog = [],
      transmitted = [],
      socketsCreated = 0,
      closeCalls = 0,
      notifications = []\<rparr>"

definition connect :: "ws_env \<Rightarrow> PPEWebSocket \<Rightarrow> PPEWebSocket" where
  "connect env s =
     (let s1 = s\<lparr>isManualDisconnect := False\<rparr>
      in if ctor_throws env then s1
         else s1\<lparr>ws := Some CONNECTING, socketsCreated := socketsCreated s1 + 1\<rparr>)"

definition armTimer :: "int \<Rightarrow> ws_callback \<Rightarrow> PPEWebSocket \<Rightarrow> PPEWebSocket" where
  "armTimer delay cb s =
     s\<lparr>wsTimers := wsTimers s @ [\<lparr>wt_id = wsNextTimerId s, wt_delay = delay, wt_callback = cb\<rparr>],
       wsNextTimerId := wsNextTimerId s + 1\<rparr>"

text \<open>
  \<open>attemptReconnect\<close>. An index past the end of the array would read \<open>undefined\<close>, which
  \<open>setTimeout\<close> takes as a delay of zero.
\<close>

definition attemptReconnect :: "PPEWebSocket \<Rightarrow> PPEWebSocket" where
  "attemptReconnect s =
     (let delay = (if currentDelayIndex s < length reconnectDelays
                   then reconnectDelays ! currentDelayIndex s else 0);
          s1 = s\<lparr>reconnectAttempts := reconnectAttempts s + 1,
                 currentDelayIndex :=
                   (if currentDelayIndex s < length reconnectDelays - 1
                    then currentDelayIndex s + 1 else currentDelayIndex s)\<rparr>
      in armTimer delay ReconnectTimer (s1\<lparr>reconnectLog := reconnectLog s1 @ [delay]\<rparr>))"

definition clearWsTimer :: "nat option \<Rightarrow> ws_timer list \<Rightarrow> ws_timer list" where
  "clearWsTimer ref ts =
     (case ref of None \<Rightarrow> ts | Some i \<Rightarrow> filter (\<lambda>t. wt_id t \<noteq> i) ts)"

definition stopHeartbeat :: "PPEWebSocket \<Rightarrow> PPEWebSocket" where
  "stopHeartbeat s =
     s\<lparr>wsTimers := clearWsTimer (heartbeatInterval s) (wsTimers s), heartbeatInterval := None\<rparr>"

definition startHeartbeat :: "PPEWebSocket \<Rightarrow> PPEWebSocket" where
  "startHeartbeat s =
     (let s1 = stopHeartbeat s
      in (armTimer 30000 HeartbeatTimer s1)\<lparr>heartbeatInterval := Some (wsNextTimerId s1)\<rparr>)"

definition stopStableConnectionTimer :: "PPEWebSocket \<Rightarrow> PPEWebSocket" where
  "stopStableConnectionTimer s =
     s\<lparr>wsTimers := clearWsTimer (stableConnectionTimer s) (wsTimers s),
       stableConnectionTimer := None\<rparr>"

definition startStableConnectionTimer :: "PPEWebSocket \<Rightarrow> PPEWebSocket" where
  "startStableConnectionTimer s =
     (let s1 = stopStableConnectionTimer s
      in (armTimer (5 * 60 * 1000) StableTimer s1)
           \<lparr>stableConnectionTimer := Some (wsNextTimerId s1)\<rparr>)"

text \<open>The handlers installed on a socket by \<open>connect\<close>.\<close>

definition onopen :: "int \<Rightarrow> PPEWebSocket \<Rightarrow> PPEWebSocket" where
  "onopen now s =
     (let s1 = startStableConnectionTimer (startHeartbeat (s\<lparr>connectionStartTime := now\<rparr>))
      in s1\<lparr>notifications := notifications s1 @ [OnConnect]\<rparr>)"

definition onclose :: "nat \<Rightarrow> int \<Rightarrow> PPEWebSocket \<Rightarrow> PPEWebSocket" where
  "onclose code now s =
     (let s1 = stopStableConnectionTimer (stopHeartbeat s);
          s2 = s1\<lparr>notifications := notifications s1 @ [OnDisconnect]\<rparr>
      in if \<not> isManualDisconnect s2 then attemptReconnect s2 else s2)"

definition send :: "ws_env \<Rightarrow> string \<Rightarrow> rat \<Rightarrow> PPEWebSocket \<Rightarrow> PPEWebSocket" where
  "send env imageData confidence s =
     (case ws s of
        None \<Rightarrow> (if \<not> isManualDisconnect s then connect env s else s)
      | Some CONNECTING \<Rightarrow> s
      | Some CLOSING \<Rightarrow> (if \<not> isManualDisconnect s then connect env s else s)
      | Some CLOSED \<Rightarrow> (if \<not> isManualDisconnect s then connect env s else s)
      | Some OPEN \<Rightarrow>
          (if (of_nat (length imageData) :: rat) / 1024 > 5000 then s
           else if send_throws env then
             (if \<not> isManualDisconnect s then attemptReconnect s else s)
           else s\<lparr>transmitted := transmitted s @ [Frame imageData confidence]\<rparr>))"

definition disconnect :: "PPEWebSocket \<Rightarrow> PPEWebSocket" where
  "disconnect s =
     (let s1 = stopStableConnectionTimer (stopHeartbeat (s\<lparr>isManualDisconnect := True\<rparr>));
          s2 = (case ws s1 of
                  None \<Rightarrow> s1
                | Some st \<Rightarrow>
                    (if st = OPEN \<or> st = CONNECTING
                     then s1\<lparr>closeCalls := closeCalls s1 + 1, ws := None\<rparr>
                     else s1\<lparr>ws := None\<rparr>))
      in s2\<lparr>reconnectAttempts := 0, currentDelayIndex := 0\<rparr>)"

text \<open>
  A timer of the object fires. A timeout is consumed; the heartbeat is an interval and
  stays pending. The reconnect callback is \<open>connect\<close>; the stability callback resets the
  backoff; the heartbeat pings an open socket and reconnects when that throws.
\<close>

definition wsFire :: "ws_env \<Rightarrow> nat \<Rightarrow> PPEWebSocket \<Rightarrow> PPEWebSocket" where
  "wsFire env i s =
     (case find (\<lambda>t. wt_id t = i) (wsTimers s) of
        None \<Rightarrow> s
      | Some t \<Rightarrow>
          (case wt_callback t of
             ReconnectTimer \<Rightarrow>
               connect env (s\<lparr>wsTimers := filter (\<lambda>t. wt_id t \<noteq> i) (wsTimers s)\<rparr>)
           | StableTimer \<Rightarrow>
               s\<lparr>wsTimers := filter (\<lambda>t. wt_id t \<noteq> i) (wsTimers s),
                 reconnectAttempts := 0, currentDelayIndex := 0\<rparr>
           | HeartbeatTimer \<Rightarrow>
               (if ws s = Some OPEN
                then (if send_throws env then connect env s
                      else s\<lparr>transmitted := transmitted s @ [Ping]\<rparr>)
                else s)))"

text \<open>
  One failed connection: the socket closes, and when the delay has passed the reconnect
  timer that the close handler armed fires.
\<close>

definition closeThenReconnect :: "ws_env \<Rightarrow> nat \<Rightarrow> int \<Rightarrow> PPEWebSocket \<Rightarrow> PPEWebSocket" where
  "closeThenReconnect env code now s = wsFire env (wsNextTimerId s) (onclose code now s)"

text \<open>Timer identifiers are handed out in increasing order, so a pending one is below the next.\<close>

definition ws_ok :: "PPEWebSocket \<Rightarrow> bool" where
  "ws_ok s \<longleftrightarrow> (\<forall>t \<in> set (wsTimers s). wt_id t < wsNextTimerId s)"

text \<open>Concrete sockets and frames used to run the model.\<close>

definition calm :: ws_env where
  "calm = \<lparr>ctor_throws = False, send_throws = False\<rparr>"

definition open_socket :: PPEWebSocket where
  "open_socket = onopen 1000 ((connect calm newPPEWebSocket)\<lparr>ws := Some OPEN\<rparr>)"

definition connecting_socket :: PPEWebSocket where
  "connecting_socket = connect calm newPPEWebSocket"

text \<open>A socket that closed abnormally and was then disconnected by hand.\<close>

definition closed_then_disconnected :: PPEWebSocket where
  "closed_then_disconnected = disconnect (onclose 1006 0 connecting_socket)"

definition oversized_frame :: string where
  "oversized_frame = replicate 5120001 (CHR ''A'')"

section \<open>Normalisation of labels\<close>

lemma lower_char_idem: "lower_char (lower_char c) = lower_char c"
  unfolding lower_char_def Let_def
  by (auto)  

lemma toLowerCase_idem: "toLowerCase (toLowerCase s) = toLowerCase s"
  by (simp add: toLowerCase_def lower_char_idem)

lemma lowered_has_no_capital:
  "x \<in> set (toLowerCase l) \<Longrightarrow> \<not> (65 \<le> (of_char x :: nat) \<and> (of_char x :: nat) \<le> 90)"
  by (auto simp: toLowerCase_def lower_char_def Let_def split: if_splits)

lemma objectPrototypeText_lowered:
  "objectPrototypeText (toLowerCase l) = inherited_key (toLowerCase l)"
proof -
  have "\<And>n c. c \<in> set n \<Longrightarrow> 65 \<le> (of_char c :: nat) \<and> (of_char c :: nat) \<le> 90
          \<Longrightarrow> toLowerCase l \<noteq> n"
    using lowered_has_no_capital[of _ l] by blast
  note ne = this
  have "toLowerCase l \<noteq> ''__defineGetter__''" by (rule ne[of "CHR ''G''"]) simp_all
  moreover have "toLowerCase l \<noteq> ''__defineSetter__''" by (rule ne[of "CHR ''S''"]) simp_all
  moreover have "toLowerCase l \<noteq> ''hasOwnProperty''" by (rule ne[of "CHR ''O''"]) simp_all
  moreover have "toLowerCase l \<noteq> ''__lookupGetter__''" by (rule ne[of "CHR ''G''"]) simp_all
  moreover have "toLowerCase l \<noteq> ''__lookupSetter__''" by (rule ne[of "CHR ''S''"]) simp_all
  moreover have "toLowerCase l \<noteq> ''isPrototypeOf''" by (rule ne[of "CHR ''P''"]) simp_all
  moreover have "toLowerCase l \<noteq> ''propertyIsEnumerable''" by (rule ne[of "CHR ''I''"]) simp_all
  moreover have "toLowerCase l \<noteq> ''toString''" by (rule ne[of "CHR ''S''"]) simp_all
  moreover have "toLowerCase l \<noteq> ''valueOf''" by (rule ne[of "CHR ''O''"]) simp_all
  moreover have "toLowerCase l \<noteq> ''toLocaleString''" by (rule ne[of "CHR ''L''"]) simp_all
  ultimately show ?thesis
    by (simp add: objectPrototypeText_def inherited_key_def nativeFunctionText_def)
qed

lemma mapping_values_canonical: "map_of CLASS_MAPPING k = Some c \<Longrightarrow> c \<in> set EPP_CLASSES"
  by (auto simp: CLASS_MAPPING_def EPP_CLASSES_def split: if_splits)

lemma canonical_identity: "c \<in> set EPP_CLASSES \<Longrightarrow> map_of CLASS_MAPPING c = Some c"
  by (auto simp: CLASS_MAPPING_def EPP_CLASSES_def split: if_splits)

lemma canonical_lower: "c \<in> set EPP_CLASSES \<Longrightarrow> toLowerCase c = c"
  by (auto simp: EPP_CLASSES_def toLowerCase_def lower_char_def)

lemma inherited_lower: "inherited_key k = Some c \<Longrightarrow> c \<notin> set EPP_CLASSES"
  by (auto simp: inherited_key_def EPP_CLASSES_def split: if_splits)

lemma unmapped_not_canonical:
  "map_of CLASS_MAPPING k = None \<Longrightarrow> classNameOf k \<notin> set EPP_CLASSES"
  using canonical_identity[of k] inherited_lower[of k]
  by (auto simp: classNameOf_def split: option.splits)

lemma normalize_idem_own:
  assumes "inherited_key (toLowerCase l) = None"
  shows "normalizeLabel (normalizeLabel l) = normalizeLabel l"
proof (cases "map_of CLASS_MAPPING (toLowerCase l)")
  case None
  then show ?thesis using assms by (simp add: normalizeLabel_def classNameOf_def toLowerCase_idem)
next
  case (Some c)
  then have "c \<in> set EPP_CLASSES" by (rule mapping_values_canonical)
  then show ?thesis using Some
    by (simp add: normalizeLabel_def classNameOf_def canonical_lower canonical_identity)
qed

lemma normalizeLabel_case_insensitive:
  "toLowerCase a = toLowerCase b \<Longrightarrow> normalizeLabel a = normalizeLabel b"
  by (simp add: normalizeLabel_def)

text \<open>
  Claim C10. Normalisation of a label is insensitive to letter case and idempotent. The
  first half holds (\<open>normalizeLabel_case_insensitive\<close>), and so does the second for every
  label that does not lowercase to \<open>constructor\<close> or \<open>__proto__\<close>
  (\<open>normalize_idem_own\<close>). For those two the table read returns a value inherited from
  \<open>Object.prototype\<close>: the label \<open>constructor\<close> is normalised to the text of the function
  \<open>Object\<close>, and normalising that text again lowercases it to a different string.
\<close>

theorem normalizeLabel_constructor_not_idempotent:
  "normalizeLabel ''constructor'' = ''function Object() { [native code] }'' \<and>
   normalizeLabel (normalizeLabel ''constructor'') = ''function object() { [native code] }'' \<and>
   normalizeLabel (normalizeLabel ''constructor'') \<noteq> normalizeLabel ''constructor''"
  by code_simp

section \<open>Grouping of detections\<close>

lemma push_group_lookup:
  "map_of (push_group g k v) k' =
     (if k' = k then Some ((case map_of g k of None \<Rightarrow> [] | Some vs \<Rightarrow> vs) @ [v])
      else map_of g k')"
  by (induction g k v rule: push_group.induct) auto

lemma push_group_keys:
  "map fst (push_group g k v) = (if k \<in> set (map fst g) then map fst g else map fst g @ [k])"
  by (induction g k v rule: push_group.induct) auto

lemma groupDetections_distinct_aux:
  "distinct (map fst g) \<Longrightarrow> distinct (map fst (foldl group_step g dets))"
  by (induction dets arbitrary: g) (auto simp: group_step_def push_group_keys Let_def)

lemma group_step_keeps:
  assumes "map_of g k = Some items" "it \<in> set items"
  shows "\<exists>items'. map_of (group_step g d) k = Some items' \<and> it \<in> set items'"
proof (cases "k = classNameOf (originalClassOf d)")
  case True
  with assms show ?thesis by (simp add: group_step_def push_group_lookup Let_def)
next
  case False
  with assms show ?thesis by (simp add: group_step_def push_group_lookup Let_def)
qed

lemma group_step_adds:
  "\<exists>items. map_of (group_step g d) (classNameOf (originalClassOf d)) = Some items
      \<and> itemOf d \<in> set items"
  by (simp add: group_step_def push_group_lookup Let_def)

lemma group_member_aux:
  "det \<in> set dets \<Longrightarrow>
   \<exists>items. map_of (foldl group_step g dets) (classNameOf (originalClassOf det)) = Some items
      \<and> itemOf det \<in> set items"
proof (induction dets arbitrary: g rule: rev_induct)
  case Nil
  then show ?case by simp
next
  case (snoc d ds)
  show ?case
  proof (cases "det \<in> set ds")
    case True
    from snoc.IH[OF this, of g] obtain items where
      "map_of (foldl group_step g ds) (classNameOf (originalClassOf det)) = Some items"
      "itemOf det \<in> set items" by blast
    from group_step_keeps[OF this, of d] show ?thesis by simp
  next
    case False
    with snoc.prems have "det = d" by simp
    then show ?thesis using group_step_adds[of "foldl group_step g ds" d] by simp
  qed
qed

lemma group_ok_step:
  assumes "group_ok g"
  shows "group_ok (group_step g det)"
  unfolding group_ok_def
proof (intro allI impI ballI)
  fix k items it
  assume m: "map_of (group_step g det) k = Some items" and i: "it \<in> set items"
  show "classNameOf (item_originalClass it) = k"
  proof (cases "k = classNameOf (originalClassOf det)")
    case True
    with m have "items = (case map_of g k of None \<Rightarrow> [] | Some vs \<Rightarrow> vs) @ [itemOf det]"
      by (simp add: group_step_def push_group_lookup Let_def)
    with i have "it = itemOf det \<or> (\<exists>vs. map_of g k = Some vs \<and> it \<in> set vs)"
      by (auto split: option.splits)
    then show ?thesis
      using assms True by (auto simp: group_ok_def itemOf_def)
  next
    case False
    with m have "map_of g k = Some items"
      by (simp add: group_step_def push_group_lookup Let_def)
    with assms i show ?thesis by (auto simp: group_ok_def)
  qed
qed

lemma group_ok_foldl: "group_ok g \<Longrightarrow> group_ok (foldl group_step g dets)"
  by (induction dets arbitrary: g) (auto simp: group_ok_step)

lemma group_ok_groupDetections: "group_ok (groupDetections dets)"
  unfolding groupDetections_def by (rule group_ok_foldl) (simp add: group_ok_def)

lemma set_ownKeysOrder: "set (ownKeysOrder obj) = set obj"
  by (auto simp: ownKeysOrder_def)

lemma distinct_keys_ownKeysOrder:
  assumes "distinct (map fst obj)"
  shows "distinct (map fst (ownKeysOrder obj))"
proof -
  from assms have d: "distinct obj" and i: "inj_on fst (set obj)"
    by (simp_all add: distinct_map)
  have "distinct (ownKeysOrder obj)"
    using d by (auto simp: ownKeysOrder_def)
  moreover have "inj_on fst (set (ownKeysOrder obj))"
    using i by (simp add: set_ownKeysOrder)
  ultimately show ?thesis by (simp add: distinct_map)
qed

lemma map_of_ownKeysOrder:
  assumes "distinct (map fst obj)"
  shows "map_of (ownKeysOrder obj) = map_of obj"
  using map_of_inject_set[OF distinct_keys_ownKeysOrder[OF assms] assms] set_ownKeysOrder[of obj]
  by simp

lemma groupDetections_distinct: "distinct (map fst (groupDetections dets))"
  unfolding groupDetections_def by (rule groupDetections_distinct_aux) simp

lemma map_of_grouped_keys:
  "map_of (ownKeysOrder (groupDetections dets)) = map_of (groupDetections dets)"
  by (rule map_of_ownKeysOrder) (rule groupDetections_distinct)

lemma map_of_summaries:
  "map_of (map (\<lambda>(className, items). (className, summarise items)) g) k
     = map_option summarise (map_of g k)"
  by (induction g) auto

lemma aggregate_keys:
  "map fst (detectionsByClass (aggregate dets)) = map fst (ownKeysOrder (groupDetections dets))"
  by (simp add: aggregate_def case_prod_beta comp_def)

lemma aggregate_counts:
  "map (\<lambda>(k, s). (k, cs_count s)) (detectionsByClass (aggregate dets))
     = map (\<lambda>(k, items). (k, length items)) (ownKeysOrder (groupDetections dets))"
  by (simp add: aggregate_def summarise_def case_prod_beta comp_def)

text \<open>
  The order of the classes: array-index keys first, by value. The mean: 0.1 and 0.2, as
  doubles, average to 0.15000000000000002.
\<close>

lemma own_keys_order_example:
  "map fst (groupDetections numbered_detections) = [''casco'', ''7'', ''03'', ''3'', ''person''] \<and>
   map fst (detectionsByClass (aggregate numbered_detections))
     = [''3'', ''7'', ''casco'', ''03'', ''person'']"
  unfolding aggregate_keys by code_simp

lemma double_mean_example:
  "map (\<lambda>(k, s). (k, cs_avgConfidence s)) (detectionsByClass (aggregate two_confidences))
     = [(''person'', 1351079888211149 / 9007199254740992)]"
  by code_simp

lemma cs_detections_summarise: "cs_detections (summarise items) = items"
  by (simp add: summarise_def)

text \<open>
  Claim C4, as amended. A detection whose lowercased label is not a key of the class
  mapping is not dropped: it is kept in a group whose key is never one of the required
  classes, and it appears in the group of no required class; when the lowercased label is
  neither \<open>constructor\<close> nor \<open>__proto__\<close>, the key of that group is the lowercased label
  itself.
\<close>

theorem unmapped_label_grouped_under_own_key:
  "det \<in> set dets \<and> map_of CLASS_MAPPING (originalClassOf det) = None \<longrightarrow>
     classNameOf (originalClassOf det) \<notin> set EPP_CLASSES \<and>
     (inherited_key (originalClassOf det) = None \<longrightarrow>
        classNameOf (originalClassOf det) = originalClassOf det) \<and>
     (\<exists>s. map_of (detectionsByClass (aggregate dets)) (classNameOf (originalClassOf det)) = Some s
          \<and> itemOf det \<in> set (cs_detections s)) \<and>
     (\<forall>c \<in> set EPP_CLASSES. \<forall>s. map_of (detectionsByClass (aggregate dets)) c = Some s \<longrightarrow>
          itemOf det \<notin> set (cs_detections s))"
proof (intro impI, elim conjE)
  assume mem: "det \<in> set dets" and un: "map_of CLASS_MAPPING (originalClassOf det) = None"
  let ?k = "classNameOf (originalClassOf det)"
  have a: "?k \<notin> set EPP_CLASSES" using un by (rule unmapped_not_canonical)
  have b: "inherited_key (originalClassOf det) = None \<longrightarrow> ?k = originalClassOf det"
    using un by (simp add: classNameOf_def)
  from group_member_aux[OF mem, of "[]"] obtain items where
    g: "map_of (groupDetections dets) ?k = Some items" and i: "itemOf det \<in> set items"
    by (auto simp: groupDetections_def)
  have c: "\<exists>s. map_of (detectionsByClass (aggregate dets)) ?k = Some s
          \<and> itemOf det \<in> set (cs_detections s)"
    using g i by (simp add: aggregate_def map_of_summaries map_of_grouped_keys cs_detections_summarise)
  have d: "\<forall>c \<in> set EPP_CLASSES. \<forall>s. map_of (detectionsByClass (aggregate dets)) c = Some s \<longrightarrow>
          itemOf det \<notin> set (cs_detections s)"
  proof (intro ballI allI impI)
    fix c s
    assume c: "c \<in> set EPP_CLASSES"
      and s: "map_of (detectionsByClass (aggregate dets)) c = Some s"
    from s obtain its where its: "map_of (groupDetections dets) c = Some its"
      and s_def: "s = summarise its"
      by (auto simp: aggregate_def map_of_summaries map_of_grouped_keys)
    show "itemOf det \<notin> set (cs_detections s)"
    proof
      assume "itemOf det \<in> set (cs_detections s)"
      then have "itemOf det \<in> set its" by (simp add: s_def cs_detections_summarise)
      with its group_ok_groupDetections[of dets]
      have "classNameOf (item_originalClass (itemOf det)) = c"
        unfolding group_ok_def by blast
      then have "?k = c" by (simp add: itemOf_def)
      with a c show False by simp
    qed
  qed
  from a b c d show "?k \<notin> set EPP_CLASSES \<and>
     (inherited_key (originalClassOf det) = None \<longrightarrow> ?k = originalClassOf det) \<and>
     (\<exists>s. map_of (detectionsByClass (aggregate dets)) ?k = Some s
          \<and> itemOf det \<in> set (cs_detections s)) \<and>
     (\<forall>c \<in> set EPP_CLASSES. \<forall>s. map_of (detectionsByClass (aggregate dets)) c = Some s \<longrightarrow>
          itemOf det \<notin> set (cs_detections s))" by blast
qed

theorem unmapped_label_grouped_under_own_key_witness:
  "person_det \<in> set [person_det] \<and> map_of CLASS_MAPPING (originalClassOf person_det) = None \<and>
   classNameOf (originalClassOf person_det) = ''person'' \<and>
   (\<exists>s. map_of (detectionsByClass (aggregate [person_det])) ''person'' = Some s
        \<and> itemOf person_det \<in> set (cs_detections s))"
proof -
  have h: "person_det \<in> set [person_det] \<and> map_of CLASS_MAPPING (originalClassOf person_det) = None"
    by code_simp
  have k: "classNameOf (originalClassOf person_det) = ''person''" by code_simp
  from unmapped_label_grouped_under_own_key[of person_det "[person_det]"] h k
  show ?thesis by simp
qed

text \<open>
  The claim as stated fails: the single detection labelled \<open>Person\<close> is not in the table,
  and the aggregation reports a class \<open>person\<close> with one member.
\<close>

theorem unmapped_label_dropped_counterexample:
  "map_of CLASS_MAPPING (originalClassOf person_det) = None \<and>
   map (\<lambda>(k, s). (k, cs_count s)) (detectionsByClass (processDetections [PredArray [person_det]]))
     = [(''person'', 1)]"
proof -
  have u: "map_of CLASS_MAPPING (originalClassOf person_det) = None" by code_simp
  have g: "map (\<lambda>(k, items). (k, length items)) (ownKeysOrder (groupDetections [person_det]))
     = [(''person'', 1)]"
    by code_simp
  from u g show ?thesis by (simp add: aggregate_counts)
qed

section \<open>Validation of the required equipment\<close>

lemma toFixed2_percent:
  assumes "0 < b"
  shows "toFixed2 (of_nat a / of_nat b * 100) =
     (let n = (20000 * a + b) div (2 * b)
      in natToString (n div 100) @ ''.'' @
         [digit_char ((n mod 100) div 10), digit_char (n mod 10)])"
proof -
  have "(of_nat a / of_nat b * 100 * 100 + 1 / 2 :: rat) = of_nat (20000 * a + b) / of_nat (2 * b)"
    using assms by (simp add: field_simps)
  then have "nat \<lfloor>(of_nat a / of_nat b * 100 * 100 + 1 / 2 :: rat)\<rfloor> = (20000 * a + b) div (2 * b)"
    by (simp only: floor_divide_of_nat_eq nat_int)
  then show ?thesis by (simp add: toFixed2_def Let_def)
qed

lemma percent_nonneg: "0 \<le> completionPercent dbc"
  by (simp add: completionPercent_def)

lemma percent_le_100:
  assumes "distinct (map fst dbc)" "set (map fst dbc) \<subseteq> set EPP_CLASSES"
  shows "completionPercent dbc \<le> 100"
proof -
  have "length (map fst dbc) = card (set (map fst dbc))"
    using distinct_card[OF assms(1)] by simp
  also have "\<dots> \<le> card (set EPP_CLASSES)"
    using assms(2) by (intro card_mono) auto
  also have "\<dots> \<le> length EPP_CLASSES" by (rule card_length)
  finally have "length dbc \<le> 8" by (simp add: EPP_CLASSES_def)
  then have "(of_nat (length dbc) :: rat) \<le> 8" by (metis of_nat_le_iff of_nat_numeral)
  then show ?thesis by (simp add: completionPercent_def EPP_CLASSES_def)
qed

lemma rate_nine: "toFixed2 (of_nat 9 / of_nat 8 * 100) = ''112.50''"
  by (subst toFixed2_percent) (simp_all add: natToString.simps digit_char_def Let_def)

lemma rate_one: "toFixed2 (of_nat 1 / of_nat 8 * 100) = ''12.50''"
  by (subst toFixed2_percent) (simp_all add: natToString.simps digit_char_def Let_def)

text \<open>
  Claim C3, as amended. For every mapping, \<open>isComplete\<close> holds exactly when \<open>missing\<close> is
  empty, and \<open>completionRate\<close> is the percentage \<open>100 * |detected| / |required|\<close> printed
  with two decimals. The percentage is never negative, and it is at most 100 when the
  keys of the mapping are all required classes.
\<close>

theorem validateCompletePPE_percent:
  "(isComplete (validateCompletePPE dbc) \<longleftrightarrow> missing (validateCompletePPE dbc) = []) \<and>
   detected (validateCompletePPE dbc) = map fst dbc \<and>
   missing (validateCompletePPE dbc) = filter (\<lambda>cls. cls \<notin> fst ` set dbc) EPP_CLASSES \<and>
   completionRate (validateCompletePPE dbc)
     = toFixed2 (of_nat (length (detected (validateCompletePPE dbc)))
                 / of_nat (length EPP_CLASSES) * 100) \<and>
   0 \<le> completionPercent dbc \<and>
   (distinct (map fst dbc) \<and> fst ` set dbc \<subseteq> set EPP_CLASSES \<longrightarrow> completionPercent dbc \<le> 100)"
  using percent_nonneg[of dbc] percent_le_100[of dbc]
  by (simp add: validateCompletePPE_def Let_def completionPercent_def)

theorem validateCompletePPE_percent_witness:
  "distinct (map fst [(''casco'', ())]) \<and> fst ` set [(''casco'', ())] \<subseteq> set EPP_CLASSES \<and>
   completionPercent [(''casco'', ())] \<le> 100 \<and>
   completionRate (validateCompletePPE [(''casco'', ())]) = ''12.50''"
proof -
  have h: "distinct (map fst [(''casco'', ())]) \<and> fst ` set [(''casco'', ())] \<subseteq> set EPP_CLASSES"
    by (simp add: EPP_CLASSES_def)
  have "length (detected (validateCompletePPE [(''casco'', ())])) = 1 \<and> length EPP_CLASSES = 8"
    by (simp add: validateCompletePPE_def EPP_CLASSES_def)
  then have r: "toFixed2 (of_nat (length (detected (validateCompletePPE [(''casco'', ())])))
                 / of_nat (length EPP_CLASSES) * 100) = ''12.50''"
    using rate_one by simp
  from validateCompletePPE_percent[of "[(''casco'', ())]"] h r show ?thesis by metis
qed

lemma nine_detections_keys:
  "map fst (detectionsByClass (processDetections [PredArray nine_detections]))
     = [''casco'', ''lentes'', ''guantes'', ''botas'', ''chaleco'', ''camisa_jean'',
        ''pantalon'', ''barbijo'', ''person'']"
proof -
  have "map fst (ownKeysOrder (groupDetections nine_detections))
     = [''casco'', ''lentes'', ''guantes'', ''botas'', ''chaleco'', ''camisa_jean'',
        ''pantalon'', ''barbijo'', ''person'']"
    by code_simp
  then show ?thesis by (simp add: aggregate_keys)
qed

lemma validate_fields:
  "completionRate (validateCompletePPE dbc) = toFixed2 (completionPercent dbc)"
  "detected (validateCompletePPE dbc) = map fst dbc"
  "isComplete (validateCompletePPE dbc)
     = (filter (\<lambda>cls. cls \<notin> set (map fst dbc)) EPP_CLASSES = [])"
  by (simp_all add: validateCompletePPE_def Let_def)

lemma nine_keys_rate:
  assumes "map fst dbc = [''casco'', ''lentes'', ''guantes'', ''botas'', ''chaleco'',
        ''camisa_jean'', ''pantalon'', ''barbijo'', ''person'']"
  shows "isComplete (validateCompletePPE dbc) \<and>
   completionRate (validateCompletePPE dbc) = ''112.50'' \<and>
   completionPercent dbc = 225 / 2 \<and>
   \<not> completionPercent dbc \<le> 1 \<and>
   completionPercent dbc
     \<noteq> of_nat (length (detected (validateCompletePPE dbc))) / of_nat (length EPP_CLASSES)"
proof -
  have len: "length dbc = 9" using arg_cong[OF assms, of length] by simp
  have a: "isComplete (validateCompletePPE dbc)"
    unfolding validate_fields assms by (simp add: EPP_CLASSES_def)
  have "completionRate (validateCompletePPE dbc) = toFixed2 (of_nat 9 / of_nat 8 * 100)"
    unfolding validate_fields by (simp add: completionPercent_def len EPP_CLASSES_def)
  then have b: "completionRate (validateCompletePPE dbc) = ''112.50''"
    by (simp only: rate_nine)
  have c: "completionPercent dbc = 225 / 2"
    by (simp add: completionPercent_def len EPP_CLASSES_def)
  have d: "of_nat (length (detected (validateCompletePPE dbc))) / of_nat (length EPP_CLASSES)
             = (9 / 8 :: rat)"
    unfolding validate_fields by (simp add: len EPP_CLASSES_def)
  show ?thesis unfolding d using a b c by simp
qed

text \<open>
  The claim as stated fails: for a frame with one detection of each required class and
  one of a person the rate is \<open>112.50\<close>, which is neither the ratio \<open>9 / 8\<close> nor within
  \<open>[0, 1]\<close>.
\<close>

theorem validateCompletePPE_rate_counterexample:
  "isComplete (validateCompletePPE (detectionsByClass (processDetections [PredArray nine_detections]))) \<and>
   completionRate (validateCompletePPE (detectionsByClass (processDetections [PredArray nine_detections])))
     = ''112.50'' \<and>
   completionPercent (detectionsByClass (processDetections [PredArray nine_detections])) = 225 / 2 \<and>
   \<not> completionPercent (detectionsByClass (processDetections [PredArray nine_detections])) \<le> 1 \<and>
   completionPercent (detectionsByClass (processDetections [PredArray nine_detections]))
     \<noteq> of_nat (length (detected (validateCompletePPE
            (detectionsByClass (processDetections [PredArray nine_detections])))))
        / of_nat (length EPP_CLASSES)"
  by (rule nine_keys_rate[OF nine_detections_keys])

section \<open>The detection handler\<close>

lemma labelOf_examples:
  "labelOf ''casco'' = ''Casco'' \<and> labelOf ''toString'' = ''function toString() { [native code] }'' \<and>
   labelOf ''orejeras'' = ''orejeras''"
  by code_simp

lemma slice0_take: "0 \<le> e \<Longrightarrow> slice0 xs e = take (nat e) xs"
  by (simp add: slice0_def)

lemma prependRecord_twice:
  assumes "2 \<le> maxRecords cfg"
  shows "prependRecord cfg r (prependRecord cfg r prev) = r # r # slice0 prev (maxRecords cfg - 2)"
proof -
  have k: "nat (maxRecords cfg - 1) = Suc (nat (maxRecords cfg - 2))"
    using assms by arith
  show ?thesis using assms by (simp add: prependRecord_def slice0_def k min_def)
qed

lemma handler_records:
  assumes "ppe_status d \<noteq> None" "has_person d \<noteq> Some False"
  shows "detectionRecords (handleDetectionResponse cfg now d s) =
     prependRecord cfg (crearRegistroDesdeDeteccion now d)
       (prependRecord cfg (crearRegistroDesdeDeteccion now d) (detectionRecords s))"
  using assms
  by (auto simp: handleDetectionResponse_def Let_def pauseDetection_def recordLatency_def)

text \<open>
  Claim C2. A response with \<open>has_person\<close> equal to false never pauses the gate: the handler
  leaves \<open>isPaused\<close>, the modal, the alert service, the history and the pending timers as
  they were and clears the in-flight flag, so the scheduler keeps running; when the
  response carries a \<open>ppe_status\<close> it publishes the neutral status with every item false.
\<close>

theorem no_subject_never_pauses:
  "has_person d = Some False \<longrightarrow>
     isPaused (handleDetectionResponse cfg now d s) = isPaused s \<and>
     isSafetyModalOpen (handleDetectionResponse cfg now d s) = isSafetyModalOpen s \<and>
     alertCalls (handleDetectionResponse cfg now d s) = alertCalls s \<and>
     detectionRecords (handleDetectionResponse cfg now d s) = detectionRecords s \<and>
     pendingTimers (handleDetectionResponse cfg now d s) = pendingTimers s \<and>
     detectionIntervalRef (handleDetectionResponse cfg now d s) = detectionIntervalRef s \<and>
     cameraActive (handleDetectionResponse cfg now d s) = cameraActive s \<and>
     \<not> isProcessingRef (handleDetectionResponse cfg now d s) \<and>
     (ppe_status d \<noteq> None \<longrightarrow>
        ppeStatus (handleDetectionResponse cfg now d s) = neutralStatus \<and>
        (\<forall>(k, v) \<in> set (ppeStatus (handleDetectionResponse cfg now d s)). \<not> v) \<and>
        \<not> hasDetection (handleDetectionResponse cfg now d s) \<and>
        detections (handleDetectionResponse cfg now d s) = [])"
  by (simp add: handleDetectionResponse_def Let_def neutralStatus_def)

theorem no_subject_never_pauses_witness:
  "has_person no_subject_response = Some False \<and> ppe_status no_subject_response \<noteq> None \<and>
   \<not> isPaused (handleDetectionResponse example_config 100 no_subject_response
        (initialDashboard example_config None)) \<and>
   ppeStatus (handleDetectionResponse example_config 100 no_subject_response
        (initialDashboard example_config None)) = neutralStatus \<and>
   detectionRecords (handleDetectionResponse example_config 100 no_subject_response
        (initialDashboard example_config None)) = []"
proof -
  have h: "has_person no_subject_response = Some False \<and> ppe_status no_subject_response \<noteq> None"
    by (simp add: no_subject_response_def)
  have i: "\<not> isPaused (initialDashboard example_config None) \<and>
           detectionRecords (initialDashboard example_config None) = []"
    by (simp add: initialDashboard_def)
  from no_subject_never_pauses[of no_subject_response example_config 100
         "initialDashboard example_config None"] h i
  show ?thesis by simp
qed

text \<open>
  Claim C9. Every verdict should add exactly one record to the history. The handler calls
  \<open>setDetectionRecords\<close> twice with the same updater, so a verdict adds the new record
  twice: from an empty history, one compliant response leaves two equal records.
\<close>

theorem verdict_appends_two_records:
  "detectionRecords (handleDetectionResponse example_config 1600 compliant_response
       (initialDashboard example_config None))
     = [crearRegistroDesdeDeteccion 1600 compliant_response,
        crearRegistroDesdeDeteccion 1600 compliant_response] \<and>
   length (detectionRecords (handleDetectionResponse example_config 1600 compliant_response
       (initialDashboard example_config None))) = 2 \<and>
   detectionRecords (initialDashboard example_config None) = []"
proof -
  have v: "ppe_status compliant_response \<noteq> None" "has_person compliant_response \<noteq> Some False"
    by (simp_all add: compliant_response_def)
  have m: "2 \<le> maxRecords example_config" by (simp add: example_config_def)
  have i: "detectionRecords (initialDashboard example_config None) = []"
    by (simp add: initialDashboard_def)
  show ?thesis
    unfolding handler_records[OF v] prependRecord_twice[OF m] i
    by (simp add: slice0_def)
qed

section \<open>The adaptive interval\<close>

lemma handler_latency:
  assumes "ppe_status d \<noteq> None" "has_person d \<noteq> Some False"
  shows "latencyHistoryRef (handleDetectionResponse cfg now d s)
           = latencyHistoryRef (recordLatency (now - lastSendTimeRef s) s) \<and>
         adaptiveIntervalRef (handleDetectionResponse cfg now d s)
           = adaptiveIntervalRef (recordLatency (now - lastSendTimeRef s) s) \<and>
         lastSendTimeRef (handleDetectionResponse cfg now d s) = lastSendTimeRef s"
  using assms
  by (auto simp: handleDetectionResponse_def Let_def pauseDetection_def recordLatency_def)

lemma recordLatency_window:
  assumes "latencyHistoryRef s = drop (length ls - 10) ls"
  shows "latencyHistoryRef (recordLatency l s) = drop (length (ls @ [l]) - 10) (ls @ [l])"
proof (cases "length ls < 10")
  case True
  with assms show ?thesis by (simp add: recordLatency_def Let_def)
next
  case False
  then have n: "10 \<le> length ls" by simp
  then have len: "length (drop (length ls - 10) ls) = 10" by simp
  then obtain x xs where x: "drop (length ls - 10) ls = x # xs"
    by (cases "drop (length ls - 10) ls") auto
  have e: "Suc (length ls - 10) = length ls - 9" "Suc (length ls) - 10 = length ls - 9"
    using n by arith+
  have "xs = drop (Suc (length ls - 10)) ls"
    using x by (metis drop_Suc list.sel(3) tl_drop)
  then have xs: "xs = drop (length ls - 9) ls" by (simp only: e)
  have "length (x # xs) = 10" using len x by simp
  then have "latencyHistoryRef (recordLatency l s) = xs @ [l]"
    using assms x by (simp add: recordLatency_def Let_def)
  also have "\<dots> = drop (length (ls @ [l]) - 10) (ls @ [l])"
    using xs by (simp add: e)
  finally show ?thesis .
qed

lemma recordLatency_interval:
  "adaptiveIntervalRef (recordLatency l s) =
     (if 5 \<le> length (latencyHistoryRef (recordLatency l s))
      then tierOf (latencyHistoryRef (recordLatency l s)) else adaptiveIntervalRef s)"
  by (simp add: recordLatency_def Let_def)

lemma fold_recordLatency:
  assumes "latencyHistoryRef s0 = []" "adaptiveIntervalRef s0 = 1500"
  shows "latencyHistoryRef (foldl (\<lambda>s l. recordLatency l s) s0 ls) = drop (length ls - 10) ls \<and>
         adaptiveIntervalRef (foldl (\<lambda>s l. recordLatency l s) s0 ls) =
           (if length ls < 5 then 1500 else tierOf (drop (length ls - 10) ls))"
proof (induction ls rule: rev_induct)
  case Nil
  then show ?case using assms by simp
next
  case (snoc l ls)
  let ?s = "foldl (\<lambda>s l. recordLatency l s) s0 ls"
  from snoc have w: "latencyHistoryRef ?s = drop (length ls - 10) ls"
    and i: "adaptiveIntervalRef ?s = (if length ls < 5 then 1500 else tierOf (drop (length ls - 10) ls))"
    by simp_all
  have w': "latencyHistoryRef (recordLatency l ?s) = drop (length (ls @ [l]) - 10) (ls @ [l])"
    using w by (rule recordLatency_window)
  have "adaptiveIntervalRef (recordLatency l ?s) =
     (if length (ls @ [l]) < 5 then 1500 else tierOf (drop (length (ls @ [l]) - 10) (ls @ [l])))"
    unfolding recordLatency_interval w' using i by (auto simp: min_def)
  with w' show ?case by simp
qed

lemma recordLatency_depends:
  assumes "latencyHistoryRef s = latencyHistoryRef t" "adaptiveIntervalRef s = adaptiveIntervalRef t"
  shows "latencyHistoryRef (recordLatency l s) = latencyHistoryRef (recordLatency l t) \<and>
         adaptiveIntervalRef (recordLatency l s) = adaptiveIntervalRef (recordLatency l t)"
  using assms by (simp add: recordLatency_def Let_def)

lemma fold_handler_latency:
  assumes "\<forall>(now, d) \<in> set msgs. ppe_status d \<noteq> None \<and> has_person d \<noteq> Some False"
  shows "latencyHistoryRef (foldl (\<lambda>s (now, d). handleDetectionResponse cfg now d s) s0 msgs)
           = latencyHistoryRef (foldl (\<lambda>s l. recordLatency l s) s0
                (map (\<lambda>(now, d). now - lastSendTimeRef s0) msgs)) \<and>
         adaptiveIntervalRef (foldl (\<lambda>s (now, d). handleDetectionResponse cfg now d s) s0 msgs)
           = adaptiveIntervalRef (foldl (\<lambda>s l. recordLatency l s) s0
                (map (\<lambda>(now, d). now - lastSendTimeRef s0) msgs)) \<and>
         lastSendTimeRef (foldl (\<lambda>s (now, d). handleDetectionResponse cfg now d s) s0 msgs)
           = lastSendTimeRef s0"
  using assms
proof (induction msgs rule: rev_induct)
  case Nil
  then show ?case by simp
next
  case (snoc m msgs)
  obtain now d where m: "m = (now, d)" by (cases m)
  let ?s = "foldl (\<lambda>s (now, d). handleDetectionResponse cfg now d s) s0 msgs"
  let ?t = "foldl (\<lambda>s l. recordLatency l s) s0 (map (\<lambda>(now, d). now - lastSendTimeRef s0) msgs)"
  from snoc.prems have v: "ppe_status d \<noteq> None" "has_person d \<noteq> Some False"
    and rest: "\<forall>(now, d) \<in> set msgs. ppe_status d \<noteq> None \<and> has_person d \<noteq> Some False"
    by (auto simp: m)
  from snoc.IH[OF rest] have ih: "latencyHistoryRef ?s = latencyHistoryRef ?t"
    "adaptiveIntervalRef ?s = adaptiveIntervalRef ?t" "lastSendTimeRef ?s = lastSendTimeRef s0"
    by simp_all
  from handler_latency[OF v, of cfg now ?s] recordLatency_depends[OF ih(1,2), of "now - lastSendTimeRef s0"]
  show ?case by (simp add: m ih(3))
qed

text \<open>
  Claim C5. Starting from an empty window and the default interval, after any sequence of
  verdicts the window holds the last ten latency samples at most; with fewer than five
  samples the interval is 1500 ms, and from five samples on it is 1000 ms when the mean of
  the window is below 300 ms, 1500 ms when the mean is at least 300 ms and below 600 ms,
  and 2500 ms when the mean is 600 ms or more.
\<close>

theorem adaptive_interval_tiers:
  "latencyHistoryRef s0 = [] \<and> adaptiveIntervalRef s0 = 1500 \<and>
   (\<forall>(now, d) \<in> set msgs. ppe_status d \<noteq> None \<and> has_person d \<noteq> Some False) \<longrightarrow>
   (let s = foldl (\<lambda>s (now, d). handleDetectionResponse cfg now d s) s0 msgs;
        samples = map (\<lambda>(now, d). now - lastSendTimeRef s0) msgs;
        window = latencyHistoryRef s;
        mean = (of_int (sum_list window) :: rat) / of_nat (length window)
    in window = drop (length samples - 10) samples \<and> length window \<le> 10 \<and>
       (length samples < 5 \<longrightarrow> adaptiveIntervalRef s = 1500) \<and>
       (5 \<le> length samples \<and> mean < 300 \<longrightarrow> adaptiveIntervalRef s = 1000) \<and>
       (5 \<le> length samples \<and> 300 \<le> mean \<and> mean < 600 \<longrightarrow> adaptiveIntervalRef s = 1500) \<and>
       (5 \<le> length samples \<and> 600 \<le> mean \<longrightarrow> adaptiveIntervalRef s = 2500))"
proof (intro impI, elim conjE)
  assume e: "latencyHistoryRef s0 = []" and i: "adaptiveIntervalRef s0 = 1500"
    and v: "\<forall>(now, d) \<in> set msgs. ppe_status d \<noteq> None \<and> has_person d \<noteq> Some False"
  let ?s = "foldl (\<lambda>s (now, d). handleDetectionResponse cfg now d s) s0 msgs"
  let ?samples = "map (\<lambda>(now, d). now - lastSendTimeRef s0) msgs"
  from fold_handler_latency[OF v, of cfg s0] fold_recordLatency[OF e i, of ?samples]
  have w: "latencyHistoryRef ?s = drop (length ?samples - 10) ?samples"
    and a: "adaptiveIntervalRef ?s =
      (if length ?samples < 5 then 1500 else tierOf (drop (length ?samples - 10) ?samples))"
    by simp_all
  show "let s = ?s; samples = ?samples; window = latencyHistoryRef s;
        mean = (of_int (sum_list window) :: rat) / of_nat (length window)
    in window = drop (length samples - 10) samples \<and> length window \<le> 10 \<and>
       (length samples < 5 \<longrightarrow> adaptiveIntervalRef s = 1500) \<and>
       (5 \<le> length samples \<and> mean < 300 \<longrightarrow> adaptiveIntervalRef s = 1000) \<and>
       (5 \<le> length samples \<and> 300 \<le> mean \<and> mean < 600 \<longrightarrow> adaptiveIntervalRef s = 1500) \<and>
       (5 \<le> length samples \<and> 600 \<le> mean \<longrightarrow> adaptiveIntervalRef s = 2500)"
    unfolding Let_def w a by (auto simp: tierOf_def Let_def)
qed

theorem adaptive_interval_tiers_witness:
  "latencyHistoryRef (initialDashboard example_config None) = [] \<and>
   adaptiveIntervalRef (initialDashboard example_config None) = 1500 \<and>
   list_all (\<lambda>(now, d). ppe_status d \<noteq> None \<and> has_person d \<noteq> Some False) five_fast \<and>
   adaptiveIntervalRef (foldl (\<lambda>s (now, d). handleDetectionResponse example_config now d s)
       (initialDashboard example_config None) five_fast) = 1000 \<and>
   latencyHistoryRef (foldl (\<lambda>s (now, d). handleDetectionResponse example_config now d s)
       (initialDashboard example_config None) five_fast) = [200, 250, 300, 250, 250]"
proof -
  have h: "latencyHistoryRef (initialDashboard example_config None) = [] \<and>
     adaptiveIntervalRef (initialDashboard example_config None) = 1500 \<and>
     lastSendTimeRef (initialDashboard example_config None) = 0"
    by (simp add: initialDashboard_def)
  have v: "\<forall>(now, d) \<in> set five_fast. ppe_status d \<noteq> None \<and> has_person d \<noteq> Some False"
    by (simp add: five_fast_def compliant_response_def)
  from adaptive_interval_tiers[of "initialDashboard example_config None" five_fast example_config]
       h v
  show ?thesis unfolding Let_def by (simp add: five_fast_def compliant_response_def)
qed

section \<open>The compliance gate and the scheduler\<close>

lemma clear_ref_all:
  assumes "gate_inv s"
  shows "clearTimeout (detectionIntervalRef s) (pendingTimers s) = []"
proof (cases "detectionIntervalRef s")
  case None
  with assms have "pendingTimers s = []" by (cases "pendingTimers s") (auto simp: gate_inv_def)
  then show ?thesis by (simp add: clearTimeout_def None)
next
  case (Some i)
  with assms have "\<forall>t \<in> set (pendingTimers s). timer_id t = i" by (auto simp: gate_inv_def)
  then show ?thesis by (simp add: clearTimeout_def Some filter_empty_conv)
qed

lemma clearTimeout_Nil: "clearTimeout r [] = []"
  by (simp add: clearTimeout_def split: option.splits)

lemma gate_inv_initial: "gate_inv (initialDashboard cfg stored)"
  by (simp add: gate_inv_def initialDashboard_def)

lemma gate_inv_stop: "gate_inv s \<Longrightarrow> gate_inv (stopDetection s)"
  using clear_ref_all[of s] by (simp add: gate_inv_def stopDetection_def)

lemma gate_inv_start:
  assumes "gate_inv s" "\<not> isPaused s" "\<not> cameraActive s"
  shows "gate_inv (startDetection s)"
  using assms by (simp add: gate_inv_def startDetection_def scheduleNextDetection_def)

lemma gate_inv_resume:
  assumes "gate_inv s" "isPaused s"
  shows "gate_inv (handleResume s)"
  using assms by (simp add: gate_inv_def handleResume_def scheduleNextDetection_def Let_def)

lemma gate_inv_message:
  assumes "gate_inv s"
  shows "gate_inv (handleDetectionResponse cfg now d s)"
proof -
  have c: "clearTimeout (detectionIntervalRef s) (pendingTimers s) = []"
    using assms by (rule clear_ref_all)
  show ?thesis using assms
    by (simp add: gate_inv_def handleDetectionResponse_def Let_def pauseDetection_def
        recordLatency_def c clearTimeout_Nil)
qed

lemma captureAndSend_frame:
  "pendingTimers (captureAndSend now img s) = pendingTimers s \<and>
   detectionIntervalRef (captureAndSend now img s) = detectionIntervalRef s \<and>
   isPaused (captureAndSend now img s) = isPaused s \<and>
   cameraActive (captureAndSend now img s) = cameraActive s \<and>
   nextTimerId (captureAndSend now img s) = nextTimerId s"
  by (simp add: captureAndSend_def Let_def)

lemma gate_inv_runTick:
  assumes "pendingTimers s = []" "\<not> isPaused s" "cameraActive s"
  shows "gate_inv (runTick k now img s)"
  using assms
  by (cases k) (simp_all add: gate_inv_def scheduleNextDetection_def captureAndSend_frame Let_def)

lemma gate_inv_fire:
  assumes "gate_inv s"
  shows "gate_inv (fireTimer i now img s)"
proof (cases "find (\<lambda>t. timer_id t = i) (pendingTimers s)")
  case None
  then show ?thesis using assms by (simp add: fireTimer_def)
next
  case (Some t)
  then have t: "t \<in> set (pendingTimers s)" "timer_id t = i"
    by (auto simp: find_Some_iff)
  with assms have r: "detectionIntervalRef s = Some i" by (auto simp: gate_inv_def)
  with assms have "\<forall>u \<in> set (pendingTimers s). timer_id u = i" by (auto simp: gate_inv_def)
  then have f: "filter (\<lambda>t. timer_id t \<noteq> i) (pendingTimers s) = []"
    by (simp add: filter_empty_conv)
  from t assms have np: "\<not> isPaused s" and ca: "cameraActive s"
    by (auto simp: gate_inv_def)
  have "gate_inv (runTick (timer_tick t) now img
          (s\<lparr>pendingTimers := filter (\<lambda>t. timer_id t \<noteq> i) (pendingTimers s)\<rparr>))"
    by (rule gate_inv_runTick) (simp_all add: f np ca)
  then show ?thesis by (simp add: fireTimer_def Some)
qed

lemma gate_inv_step:
  assumes "gate_inv s"
  shows "gate_inv (step cfg s e)"
proof (cases e)
  case ClickMainButton
  then show ?thesis
    using assms gate_inv_resume[of s] gate_inv_stop[of s] gate_inv_start[of s] by simp
next
  case ClickModalResume
  then show ?thesis using assms gate_inv_resume[of s] by simp
next
  case ClickRefresh
  then show ?thesis using assms gate_inv_stop[of s] by simp
next
  case (OpenSafetyModal h)
  then show ?thesis using assms by (cases h) (simp_all add: gate_inv_def)
next
  case (TimerFires i now img)
  then show ?thesis using assms gate_inv_fire[of s i now img] by simp
next
  case (Message now d)
  then show ?thesis using assms gate_inv_message[of s cfg now d] by simp
qed (use assms in \<open>simp_all add: gate_inv_def\<close>)

lemma gate_inv_run: "gate_inv s \<Longrightarrow> gate_inv (run cfg es s)"
  unfolding run_def by (induction es arbitrary: s) (simp_all add: gate_inv_step)

lemma fast_session_state:
  "isPaused (run example_config fast_session (initialDashboard example_config None)) \<and>
   cameraFeedRef (run example_config fast_session (initialDashboard example_config None)) \<and>
   wsOpen (run example_config fast_session (initialDashboard example_config None)) \<and>
   adaptiveIntervalRef (run example_config fast_session (initialDashboard example_config None)) = 1000 \<and>
   latencyHistoryRef (run example_config fast_session (initialDashboard example_config None))
      = [100, 100, 100, 100, 100, 100] \<and>
   captures (run example_config fast_session (initialDashboard example_config None)) = 6 \<and>
   nextTimerId (run example_config fast_session (initialDashboard example_config None)) = 8 \<and>
   pendingTimers (run example_config fast_session (initialDashboard example_config None)) = []"
  by code_simp









text \<open>
  The guarantee rests on the cancellation at the pause. The callback armed by
  \<open>handleResume\<close> does not test the gate, and the one armed by \<open>startDetection\<close> tests the
  \<open>isPaused\<close> of the render that started it; at a state with the gate paused and a timer
  pending they would capture. No run reaches such a state.
\<close>

lemma paused_with_timer_unreachable:
  "run cfg es (initialDashboard cfg stored) \<noteq> paused_with_timer"
proof
  assume "run cfg es (initialDashboard cfg stored) = paused_with_timer"
  moreover have "gate_inv (run cfg es (initialDashboard cfg stored))"
    by (rule gate_inv_run) (rule gate_inv_initial)
  ultimately have "gate_inv paused_with_timer" by simp
  then show False by (simp add: gate_inv_def paused_with_timer_def)
qed

lemma callbacks_at_unreachable_state:
  "isPaused paused_with_timer \<and>
   captures (step example_config paused_with_timer (TimerFires 1 9000 (Some ''frame'')))
     = captures paused_with_timer + 1 \<and>
   sentFrames (step example_config paused_with_timer (TimerFires 1 9000 (Some ''frame'')))
     = sentFrames paused_with_timer @ [(''frame'', 3 / 10)] \<and>
   captures (runTick (StartTick False) 9000 (Some ''frame'') paused_with_timer)
     = captures paused_with_timer + 1"
  by code_simp

text \<open>
  Claim C8. Resuming leaves the latency window and the adaptive interval as they are and
  ends the pause; with the camera and the connection available it arms exactly one timer,
  whose delay is the current adaptive interval, and otherwise it arms none.
\<close>

theorem resume_rearms_with_adaptive_interval:
  "latencyHistoryRef (handleResume s) = latencyHistoryRef s \<and>
   adaptiveIntervalRef (handleResume s) = adaptiveIntervalRef s \<and>
   \<not> isPaused (handleResume s) \<and>
   (cameraFeedRef s \<and> wsOpen s \<longrightarrow>
      pendingTimers (handleResume s) = pendingTimers s @
        [\<lparr>timer_id = nextTimerId s, timer_delay = adaptiveIntervalRef s, timer_tick = ResumeTick\<rparr>] \<and>
      detectionIntervalRef (handleResume s) = Some (nextTimerId s)) \<and>
   (\<not> (cameraFeedRef s \<and> wsOpen s) \<longrightarrow> pendingTimers (handleResume s) = pendingTimers s)"
  by (simp add: handleResume_def Let_def scheduleNextDetection_def)

theorem resume_rearms_with_adaptive_interval_witness:
  "cameraFeedRef (run example_config fast_session (initialDashboard example_config None)) \<and>
   wsOpen (run example_config fast_session (initialDashboard example_config None)) \<and>
   pendingTimers (handleResume (run example_config fast_session (initialDashboard example_config None)))
     = [\<lparr>timer_id = 8, timer_delay = 1000, timer_tick = ResumeTick\<rparr>] \<and>
   latencyHistoryRef (handleResume (run example_config fast_session (initialDashboard example_config None)))
     = [100, 100, 100, 100, 100, 100]"
  using resume_rearms_with_adaptive_interval
          [of "run example_config fast_session (initialDashboard example_config None)"]
        fast_session_state
  by simp

section \<open>Sending a frame\<close>

lemma send_cases:
  "send env img c s =
     (if ws s = Some OPEN then
        (if 5120000 < length img then s
         else if send_throws env then (if isManualDisconnect s then s else attemptReconnect s)
         else s\<lparr>transmitted := transmitted s @ [Frame img c]\<rparr>)
      else if ws s = Some CONNECTING then s
      else if isManualDisconnect s then s else connect env s)"
proof -
  have "((of_nat (length img) :: rat) / 1024 > 5000) = (5120000 < length img)"
  proof -
    have "((of_nat (length img) :: rat) / 1024 > 5000) = ((of_nat (length img) :: rat) > of_nat 5120000)"
      by (simp add: field_simps)
    also have "\<dots> = (5120000 < length img)" by (simp only: of_nat_less_iff)
    finally show ?thesis .
  qed
  then show ?thesis
    by (cases "ws s"; simp add: send_def split: readyState.splits)
qed

lemma connect_transmitted: "transmitted (connect env s) = transmitted s"
  by (simp add: connect_def Let_def)

lemma attemptReconnect_transmitted: "transmitted (attemptReconnect s) = transmitted s"
  by (simp add: attemptReconnect_def armTimer_def Let_def)

text \<open>
  Claim C7, as amended. A call of \<open>send\<close> hands the frame to the socket exactly when the
  socket is open, the image string has at most 5000 * 1024 characters and the socket's
  own \<open>send\<close> does not throw; otherwise nothing is transmitted. An open socket rejects a
  longer image and changes nothing (no retry, no reconnect). With no socket, or a socket
  that is closing or closed, the call transmits nothing and calls \<open>connect\<close> unless the
  closure was manual. While the socket is still connecting the call does nothing at all.
\<close>

theorem send_transmits_when_open_and_small:
  "(transmitted (send env img c s) = transmitted s @ [Frame img c] \<longleftrightarrow>
      ws s = Some OPEN \<and> length img \<le> 5120000 \<and> \<not> send_throws env) \<and>
   (transmitted (send env img c s) \<noteq> transmitted s @ [Frame img c] \<longrightarrow>
      transmitted (send env img c s) = transmitted s) \<and>
   (length img \<le> 5120000 \<longleftrightarrow> (of_nat (length img) :: rat) / 1024 \<le> 5000) \<and>
   (ws s = Some OPEN \<and> 5120000 < length img \<longrightarrow> send env img c s = s) \<and>
   (ws s = Some OPEN \<and> length img \<le> 5120000 \<and> send_throws env \<longrightarrow>
      send env img c s = (if isManualDisconnect s then s else attemptReconnect s)) \<and>
   (ws s = Some CONNECTING \<longrightarrow> send env img c s = s) \<and>
   (ws s = None \<or> ws s = Some CLOSING \<or> ws s = Some CLOSED \<longrightarrow>
      send env img c s = (if isManualDisconnect s then s else connect env s))"
proof -
  have r: "(length img \<le> 5120000) = ((of_nat (length img) :: rat) / 1024 \<le> 5000)"
  proof -
    have "((of_nat (length img) :: rat) / 1024 \<le> 5000) = ((of_nat (length img) :: rat) \<le> of_nat 5120000)"
      by (simp add: field_simps)
    also have "\<dots> = (length img \<le> 5120000)" by (simp only: of_nat_le_iff)
    finally show ?thesis by simp
  qed
  show ?thesis
    unfolding send_cases r[symmetric]
    by (auto simp: connect_transmitted attemptReconnect_transmitted)
qed

theorem send_transmits_when_open_and_small_witness:
  "ws open_socket = Some OPEN \<and> length ''frame'' \<le> 5120000 \<and> \<not> send_throws calm \<and>
   transmitted (send calm ''frame'' (3 / 10) open_socket) = [Frame ''frame'' (3 / 10)] \<and>
   5120000 < length oversized_frame \<and>
   send calm oversized_frame (3 / 10) open_socket = open_socket \<and>
   ws connecting_socket = Some CONNECTING \<and>
   send calm ''frame'' (3 / 10) connecting_socket = connecting_socket"
proof -
  have o: "ws open_socket = Some OPEN" "transmitted open_socket = []"
    by (simp_all add: open_socket_def onopen_def startStableConnectionTimer_def
        stopStableConnectionTimer_def startHeartbeat_def stopHeartbeat_def armTimer_def
        connect_def newPPEWebSocket_def calm_def Let_def)
  have c: "ws connecting_socket = Some CONNECTING"
    by (simp add: connecting_socket_def connect_def calm_def Let_def)
  have f: "length ''frame'' \<le> 5120000" "\<not> send_throws calm" "5120000 < length oversized_frame"
    by (simp_all add: calm_def oversized_frame_def)
  from send_transmits_when_open_and_small[of calm "''frame''" "3 / 10" open_socket]
       send_transmits_when_open_and_small[of calm oversized_frame "3 / 10" open_socket]
       send_transmits_when_open_and_small[of calm "''frame''" "3 / 10" connecting_socket]
       o c f
  show ?thesis by simp
qed

text \<open>
  The claim as stated fails: a socket that is still connecting is not open, its closure
  is not manual, and \<open>send\<close> returns without constructing a socket or arming a reconnect.
\<close>

theorem send_while_connecting_counterexample:
  "ws connecting_socket = Some CONNECTING \<and> \<not> isManualDisconnect connecting_socket \<and>
   send calm ''frame'' (3 / 10) connecting_socket = connecting_socket \<and>
   socketsCreated (send calm ''frame'' (3 / 10) connecting_socket) = 1 \<and>
   socketsCreated connecting_socket = 1 \<and>
   reconnectLog (send calm ''frame'' (3 / 10) connecting_socket) = [] \<and>
   wsTimers (send calm ''frame'' (3 / 10) connecting_socket) = []"
  by (simp add: send_def connecting_socket_def connect_def calm_def newPPEWebSocket_def Let_def)

section \<open>Reconnection backoff\<close>

lemma clearWsTimer_subset: "set (clearWsTimer r ts) \<subseteq> set ts"
  by (auto simp: clearWsTimer_def split: option.splits)

lemma ws_ok_armTimer: "ws_ok s \<Longrightarrow> ws_ok (armTimer d cb s)"
  by (auto simp: ws_ok_def armTimer_def less_Suc_eq)

lemma ws_ok_stopHeartbeat: "ws_ok s \<Longrightarrow> ws_ok (stopHeartbeat s)"
  using clearWsTimer_subset[of "heartbeatInterval s" "wsTimers s"]
  by (auto simp: ws_ok_def stopHeartbeat_def)

lemma ws_ok_stopStable: "ws_ok s \<Longrightarrow> ws_ok (stopStableConnectionTimer s)"
  using clearWsTimer_subset[of "stableConnectionTimer s" "wsTimers s"]
  by (auto simp: ws_ok_def stopStableConnectionTimer_def)

lemma ws_ok_connect: "ws_ok s \<Longrightarrow> ws_ok (connect env s)"
  by (simp add: ws_ok_def connect_def Let_def)

lemma ws_ok_new: "ws_ok newPPEWebSocket"
  by (simp add: ws_ok_def newPPEWebSocket_def)

lemma find_fresh:
  assumes "\<forall>t \<in> set ts. wt_id t \<noteq> i"
  shows "find (\<lambda>t. wt_id t = i) (ts @ [\<lparr>wt_id = i, wt_delay = d, wt_callback = cb\<rparr>])
           = Some \<lparr>wt_id = i, wt_delay = d, wt_callback = cb\<rparr>"
  using assms by (induction ts) auto

lemma find_absent:
  assumes "\<forall>t \<in> set ts. wt_id t \<noteq> i"
  shows "find (\<lambda>t. wt_id t = i) ts = None"
  using assms by (induction ts) auto

text \<open>The fields the backoff depends on, through the stop functions.\<close>

lemma stop_frame:
  "isManualDisconnect (stopStableConnectionTimer (stopHeartbeat s)) = isManualDisconnect s \<and>
   currentDelayIndex (stopStableConnectionTimer (stopHeartbeat s)) = currentDelayIndex s \<and>
   reconnectAttempts (stopStableConnectionTimer (stopHeartbeat s)) = reconnectAttempts s \<and>
   reconnectLog (stopStableConnectionTimer (stopHeartbeat s)) = reconnectLog s \<and>
   wsNextTimerId (stopStableConnectionTimer (stopHeartbeat s)) = wsNextTimerId s \<and>
   set (wsTimers (stopStableConnectionTimer (stopHeartbeat s))) \<subseteq> set (wsTimers s)"
  using clearWsTimer_subset[of "stableConnectionTimer s" "clearWsTimer (heartbeatInterval s) (wsTimers s)"]
        clearWsTimer_subset[of "heartbeatInterval s" "wsTimers s"]
  by (auto simp: stopStableConnectionTimer_def stopHeartbeat_def)

lemma onclose_nonmanual:
  assumes "\<not> isManualDisconnect s" "currentDelayIndex s \<le> 3"
  shows "reconnectLog (onclose code now s) = reconnectLog s @ [reconnectDelays ! currentDelayIndex s]"
    and "currentDelayIndex (onclose code now s) = min (currentDelayIndex s + 1) 3"
    and "reconnectAttempts (onclose code now s) = reconnectAttempts s + 1"
    and "\<not> isManualDisconnect (onclose code now s)"
    and "wsNextTimerId (onclose code now s) = wsNextTimerId s + 1"
    and "wsTimers (onclose code now s) =
           wsTimers (stopStableConnectionTimer (stopHeartbeat s)) @
             [\<lparr>wt_id = wsNextTimerId s, wt_delay = reconnectDelays ! currentDelayIndex s,
               wt_callback = ReconnectTimer\<rparr>]"
  using assms stop_frame[of s]
  by (auto simp: onclose_def attemptReconnect_def armTimer_def Let_def reconnectDelays_def)

lemma onclose_manual:
  assumes "isManualDisconnect s"
  shows "reconnectLog (onclose code now s) = reconnectLog s"
    and "currentDelayIndex (onclose code now s) = currentDelayIndex s"
    and "set (wsTimers (onclose code now s)) \<subseteq> set (wsTimers s)"
  using assms stop_frame[of s]
  by (auto simp: onclose_def Let_def)

lemma closeThenReconnect_step:
  assumes "ws_ok s" "\<not> isManualDisconnect s" "currentDelayIndex s \<le> 3"
  shows "ws_ok (closeThenReconnect env code now s)"
    and "\<not> isManualDisconnect (closeThenReconnect env code now s)"
    and "currentDelayIndex (closeThenReconnect env code now s) = min (currentDelayIndex s + 1) 3"
    and "reconnectLog (closeThenReconnect env code now s)
           = reconnectLog s @ [reconnectDelays ! currentDelayIndex s]"
proof -
  let ?old = "wsTimers (stopStableConnectionTimer (stopHeartbeat s))"
  let ?new = "\<lparr>wt_id = wsNextTimerId s, wt_delay = reconnectDelays ! currentDelayIndex s,
               wt_callback = ReconnectTimer\<rparr>"
  have old: "\<forall>t \<in> set ?old. wt_id t < wsNextTimerId s"
    using assms(1) stop_frame[of s] by (auto simp: ws_ok_def)
  then have fresh: "\<forall>t \<in> set ?old. wt_id t \<noteq> wsNextTimerId s" by auto
  have f: "find (\<lambda>t. wt_id t = wsNextTimerId s) (wsTimers (onclose code now s)) = Some ?new"
    unfolding onclose_nonmanual(6)[OF assms(2,3)] using fresh by (rule find_fresh)
  have e: "closeThenReconnect env code now s =
     connect env ((onclose code now s)
        \<lparr>wsTimers := filter (\<lambda>t. wt_id t \<noteq> wsNextTimerId s) (wsTimers (onclose code now s))\<rparr>)"
    by (simp add: closeThenReconnect_def wsFire_def f)
  have flt: "filter (\<lambda>t. wt_id t \<noteq> wsNextTimerId s) (wsTimers (onclose code now s)) = ?old"
    unfolding onclose_nonmanual(6)[OF assms(2,3)] using fresh by (simp add: filter_id_conv)
  show "ws_ok (closeThenReconnect env code now s)"
    unfolding e flt using old onclose_nonmanual(5)[OF assms(2,3), of code now]
    by (auto simp: ws_ok_def connect_def Let_def less_Suc_eq)
  show "\<not> isManualDisconnect (closeThenReconnect env code now s)"
    unfolding e by (simp add: connect_def Let_def)
  show "currentDelayIndex (closeThenReconnect env code now s) = min (currentDelayIndex s + 1) 3"
    unfolding e using onclose_nonmanual(2)[OF assms(2,3), of code now]
    by (simp add: connect_def Let_def)
  show "reconnectLog (closeThenReconnect env code now s)
           = reconnectLog s @ [reconnectDelays ! currentDelayIndex s]"
    unfolding e using onclose_nonmanual(1)[OF assms(2,3), of code now]
    by (simp add: connect_def Let_def)
qed

lemma closeThenReconnect_iterate:
  assumes "ws_ok s" "\<not> isManualDisconnect s" "currentDelayIndex s = 0"
  shows "ws_ok ((closeThenReconnect env code now ^^ n) s) \<and>
         \<not> isManualDisconnect ((closeThenReconnect env code now ^^ n) s) \<and>
         currentDelayIndex ((closeThenReconnect env code now ^^ n) s) = min n 3 \<and>
         reconnectLog ((closeThenReconnect env code now ^^ n) s)
           = reconnectLog s @ map (\<lambda>k. reconnectDelays ! min k 3) [0..<n]"
proof (induction n)
  case 0
  then show ?case using assms by simp
next
  case (Suc n)
  let ?t = "(closeThenReconnect env code now ^^ n) s"
  from Suc have ih: "ws_ok ?t" "\<not> isManualDisconnect ?t" "currentDelayIndex ?t = min n 3"
    "reconnectLog ?t = reconnectLog s @ map (\<lambda>k. reconnectDelays ! min k 3) [0..<n]"
    by simp_all
  have le: "currentDelayIndex ?t \<le> 3" using ih(3) by simp
  from closeThenReconnect_step[OF ih(1,2) le, of env code now] ih(3,4)
  show ?case by (simp add: min_def)
qed

lemma onopen_frame:
  "isManualDisconnect (onopen now s) = isManualDisconnect s \<and>
   currentDelayIndex (onopen now s) = currentDelayIndex s \<and>
   reconnectAttempts (onopen now s) = reconnectAttempts s \<and>
   reconnectLog (onopen now s) = reconnectLog s \<and>
   wsNextTimerId (onopen now s) = wsNextTimerId s + 2 \<and>
   heartbeatInterval (onopen now s) = Some (wsNextTimerId s) \<and>
   stableConnectionTimer (onopen now s) = Some (wsNextTimerId s + 1) \<and>
   wsTimers (onopen now s) =
     clearWsTimer (stableConnectionTimer s)
       (clearWsTimer (heartbeatInterval s) (wsTimers s) @
          [\<lparr>wt_id = wsNextTimerId s, wt_delay = 30000, wt_callback = HeartbeatTimer\<rparr>]) @
     [\<lparr>wt_id = wsNextTimerId s + 1, wt_delay = 300000, wt_callback = StableTimer\<rparr>]"
  by (simp add: onopen_def startStableConnectionTimer_def stopStableConnectionTimer_def
      startHeartbeat_def stopHeartbeat_def armTimer_def Let_def)

lemma onopen_stable_timer:
  assumes "ws_ok s"
  shows "find (\<lambda>t. wt_id t = wsNextTimerId s + 1) (wsTimers (onopen now s))
           = Some \<lparr>wt_id = wsNextTimerId s + 1, wt_delay = 300000, wt_callback = StableTimer\<rparr>"
proof -
  let ?ts = "clearWsTimer (stableConnectionTimer s)
       (clearWsTimer (heartbeatInterval s) (wsTimers s) @
          [\<lparr>wt_id = wsNextTimerId s, wt_delay = 30000, wt_callback = HeartbeatTimer\<rparr>])"
  have "set ?ts \<subseteq> set (wsTimers s) \<union>
          {\<lparr>wt_id = wsNextTimerId s, wt_delay = 30000, wt_callback = HeartbeatTimer\<rparr>}"
    using clearWsTimer_subset[of "stableConnectionTimer s"
            "clearWsTimer (heartbeatInterval s) (wsTimers s) @
          [\<lparr>wt_id = wsNextTimerId s, wt_delay = 30000, wt_callback = HeartbeatTimer\<rparr>]"]
          clearWsTimer_subset[of "heartbeatInterval s" "wsTimers s"]
    by auto
  with assms have "\<forall>t \<in> set ?ts. wt_id t \<noteq> wsNextTimerId s + 1"
    by (fastforce simp: ws_ok_def)
  then show ?thesis
    using onopen_frame[of now s] find_fresh[of ?ts "wsNextTimerId s + 1" 300000 StableTimer]
    by simp
qed

lemma stable_timer_resets:
  assumes "ws_ok s"
  shows "currentDelayIndex (wsFire env (wsNextTimerId s + 1) (onopen now s)) = 0"
    and "reconnectAttempts (wsFire env (wsNextTimerId s + 1) (onopen now s)) = 0"
    and "isManualDisconnect (wsFire env (wsNextTimerId s + 1) (onopen now s)) = isManualDisconnect s"
    and "reconnectLog (wsFire env (wsNextTimerId s + 1) (onopen now s)) = reconnectLog s"
  using onopen_stable_timer[OF assms, of now] onopen_frame[of now s]
  by (simp_all add: wsFire_def)

lemma closed_before_stable:
  assumes "ws_ok s"
  shows "wsFire env (wsNextTimerId s + 1) (onclose code now' (onopen now s))
           = onclose code now' (onopen now s)"
proof -
  let ?o = "onopen now s"
  let ?i = "wsNextTimerId s + 1"
  have base: "\<forall>t \<in> set (wsTimers ?o). wt_id t \<le> ?i"
  proof -
    have "set (wsTimers ?o) \<subseteq> set (wsTimers s) \<union>
          {\<lparr>wt_id = wsNextTimerId s, wt_delay = 30000, wt_callback = HeartbeatTimer\<rparr>,
           \<lparr>wt_id = wsNextTimerId s + 1, wt_delay = 300000, wt_callback = StableTimer\<rparr>}"
      using onopen_frame[of now s]
          clearWsTimer_subset[of "stableConnectionTimer s"
            "clearWsTimer (heartbeatInterval s) (wsTimers s) @
          [\<lparr>wt_id = wsNextTimerId s, wt_delay = 30000, wt_callback = HeartbeatTimer\<rparr>]"]
          clearWsTimer_subset[of "heartbeatInterval s" "wsTimers s"]
      by auto
    with assms show ?thesis by (fastforce simp: ws_ok_def)
  qed
  have stopped: "\<forall>t \<in> set (wsTimers (stopStableConnectionTimer (stopHeartbeat ?o))). wt_id t \<noteq> ?i"
    using onopen_frame[of now s]
    by (auto simp: stopStableConnectionTimer_def stopHeartbeat_def clearWsTimer_def)
  have "\<forall>t \<in> set (wsTimers (onclose code now' ?o)). wt_id t \<noteq> ?i"
    using stopped onopen_frame[of now s]
    by (auto simp: onclose_def attemptReconnect_def armTimer_def Let_def
        stopStableConnectionTimer_def stopHeartbeat_def)
  then have "find (\<lambda>t. wt_id t = ?i) (wsTimers (onclose code now' ?o)) = None"
    by (rule find_absent)
  then show ?thesis by (simp add: wsFire_def)
qed

lemma disconnect_frame:
  "currentDelayIndex (disconnect s) = 0 \<and> reconnectAttempts (disconnect s) = 0 \<and>
   isManualDisconnect (disconnect s) \<and> ws (disconnect s) = None \<and>
   reconnectLog (disconnect s) = reconnectLog s \<and>
   wsNextTimerId (disconnect s) = wsNextTimerId s \<and>
   heartbeatInterval (disconnect s) = None \<and> stableConnectionTimer (disconnect s) = None \<and>
   set (wsTimers (disconnect s)) \<subseteq> set (wsTimers s)"
  using clearWsTimer_subset[of "stableConnectionTimer s" "clearWsTimer (heartbeatInterval s) (wsTimers s)"]
        clearWsTimer_subset[of "heartbeatInterval s" "wsTimers s"]
  by (auto simp: disconnect_def stopStableConnectionTimer_def stopHeartbeat_def Let_def
      split: option.splits)

text \<open>The invariant \<open>ws_ok\<close> holds of a new object and every operation keeps it.\<close>

lemma ws_ok_attemptReconnect: "ws_ok s \<Longrightarrow> ws_ok (attemptReconnect s)"
  by (auto simp: ws_ok_def attemptReconnect_def armTimer_def Let_def less_Suc_eq)

lemma ws_ok_onopen: "ws_ok s \<Longrightarrow> ws_ok (onopen now s)"
  using onopen_frame[of now s]
        clearWsTimer_subset[of "stableConnectionTimer s"
            "clearWsTimer (heartbeatInterval s) (wsTimers s) @
          [\<lparr>wt_id = wsNextTimerId s, wt_delay = 30000, wt_callback = HeartbeatTimer\<rparr>]"]
        clearWsTimer_subset[of "heartbeatInterval s" "wsTimers s"]
  by (fastforce simp: ws_ok_def)

lemma ws_ok_onclose: "ws_ok s \<Longrightarrow> ws_ok (onclose code now s)"
  using ws_ok_attemptReconnect[of "(stopStableConnectionTimer (stopHeartbeat s))
          \<lparr>notifications := notifications (stopStableConnectionTimer (stopHeartbeat s)) @ [OnDisconnect]\<rparr>"]
        ws_ok_stopStable[OF ws_ok_stopHeartbeat, of s]
  by (simp add: onclose_def Let_def ws_ok_def)

lemma ws_ok_disconnect: "ws_ok s \<Longrightarrow> ws_ok (disconnect s)"
  using disconnect_frame[of s] by (auto simp: ws_ok_def)

lemma ws_ok_send: "ws_ok s \<Longrightarrow> ws_ok (send env img c s)"
  unfolding send_cases
  by (auto simp: ws_ok_connect ws_ok_attemptReconnect) (simp add: ws_ok_def)

lemma ws_ok_wsFire: "ws_ok s \<Longrightarrow> ws_ok (wsFire env i s)"
proof -
  assume ok: "ws_ok s"
  have f: "ws_ok (s\<lparr>wsTimers := filter (\<lambda>t. wt_id t \<noteq> i) (wsTimers s)\<rparr>)"
    using ok by (simp add: ws_ok_def)
  have t: "ws_ok (s\<lparr>transmitted := transmitted s @ [Ping]\<rparr>)"
    using ok by (simp add: ws_ok_def)
  have r: "ws_ok (s\<lparr>wsTimers := filter (\<lambda>t. wt_id t \<noteq> i) (wsTimers s),
                 reconnectAttempts := 0, currentDelayIndex := 0\<rparr>)"
    using ok by (simp add: ws_ok_def)
  show ?thesis
    using ok f t r ws_ok_connect[OF f, of env] ws_ok_connect[OF ok, of env]
    by (simp add: wsFire_def split: option.splits ws_callback.splits)
qed

text \<open>
  The ladder and the stability window. From a fresh backoff state, the delays of \<open>n\<close>
  consecutive closures that are not manual are the first \<open>n\<close> steps of the ladder 2 s, 5 s,
  10 s, 30 s, the last value repeating. An opened connection arms a five-minute timer;
  when it fires the index and the attempt count are zero again and the next closure waits
  2 s, and a connection that closes earlier cancels it. A manual disconnect zeroes the
  index and the attempt count at once and arms no new timer, and the close event that
  follows it arms none either.
\<close>

theorem reconnect_backoff_ladder:
  "ws_ok s \<longrightarrow>
   (\<not> isManualDisconnect s \<and> currentDelayIndex s = 0 \<longrightarrow>
      reconnectLog ((closeThenReconnect env code now ^^ n) s)
        = reconnectLog s @ map (\<lambda>k. [2000, 5000, 10000, 30000] ! min k 3) [0..<n]) \<and>
   stableConnectionTimer (onopen now s) = Some (wsNextTimerId s + 1) \<and>
   find (\<lambda>t. wt_id t = wsNextTimerId s + 1) (wsTimers (onopen now s))
     = Some \<lparr>wt_id = wsNextTimerId s + 1, wt_delay = 300000, wt_callback = StableTimer\<rparr> \<and>
   currentDelayIndex (wsFire env (wsNextTimerId s + 1) (onopen now s)) = 0 \<and>
   reconnectAttempts (wsFire env (wsNextTimerId s + 1) (onopen now s)) = 0 \<and>
   (\<not> isManualDisconnect s \<longrightarrow>
      reconnectLog (onclose code now (wsFire env (wsNextTimerId s + 1) (onopen now s)))
        = reconnectLog s @ [2000]) \<and>
   wsFire env (wsNextTimerId s + 1) (onclose code now (onopen now s))
     = onclose code now (onopen now s) \<and>
   currentDelayIndex (disconnect s) = 0 \<and> reconnectAttempts (disconnect s) = 0 \<and>
   isManualDisconnect (disconnect s) \<and> ws (disconnect s) = None \<and>
   reconnectLog (disconnect s) = reconnectLog s \<and>
   set (wsTimers (disconnect s)) \<subseteq> set (wsTimers s) \<and>
   reconnectLog (onclose code now (disconnect s)) = reconnectLog s \<and>
   set (wsTimers (onclose code now (disconnect s))) \<subseteq> set (wsTimers s) \<and>
   currentDelayIndex (onclose code now (disconnect s)) = 0"
proof
  assume ok: "ws_ok s"
  let ?f = "wsFire env (wsNextTimerId s + 1) (onopen now s)"
  have ladder: "\<not> isManualDisconnect s \<and> currentDelayIndex s = 0 \<longrightarrow>
      reconnectLog ((closeThenReconnect env code now ^^ n) s)
        = reconnectLog s @ map (\<lambda>k. [2000, 5000, 10000, 30000] ! min k 3) [0..<n]"
    using closeThenReconnect_iterate[OF ok, where env=env and code=code and now=now and n=n]
    by (simp add: reconnectDelays_def)
  have next2s: "\<not> isManualDisconnect s \<longrightarrow>
      reconnectLog (onclose code now ?f) = reconnectLog s @ [2000]"
  proof
    assume nm: "\<not> isManualDisconnect s"
    have a: "\<not> isManualDisconnect ?f" "currentDelayIndex ?f \<le> 3"
      using stable_timer_resets[OF ok, of env now] nm by simp_all
    from onclose_nonmanual(1)[OF a, of code now] stable_timer_resets[OF ok, of env now]
    show "reconnectLog (onclose code now ?f) = reconnectLog s @ [2000]"
      by (simp add: reconnectDelays_def)
  qed
  have d: "isManualDisconnect (disconnect s)" using disconnect_frame[of s] by simp
  from ladder next2s onopen_frame[of now s] onopen_stable_timer[OF ok, of now]
       stable_timer_resets(1,2)[OF ok, of env now] closed_before_stable[OF ok, of env code now now]
       disconnect_frame[of s] onclose_manual[OF d, of code now]
  show "(\<not> isManualDisconnect s \<and> currentDelayIndex s = 0 \<longrightarrow>
      reconnectLog ((closeThenReconnect env code now ^^ n) s)
        = reconnectLog s @ map (\<lambda>k. [2000, 5000, 10000, 30000] ! min k 3) [0..<n]) \<and>
   stableConnectionTimer (onopen now s) = Some (wsNextTimerId s + 1) \<and>
   find (\<lambda>t. wt_id t = wsNextTimerId s + 1) (wsTimers (onopen now s))
     = Some \<lparr>wt_id = wsNextTimerId s + 1, wt_delay = 300000, wt_callback = StableTimer\<rparr> \<and>
   currentDelayIndex ?f = 0 \<and>
   reconnectAttempts ?f = 0 \<and>
   (\<not> isManualDisconnect s \<longrightarrow>
      reconnectLog (onclose code now ?f) = reconnectLog s @ [2000]) \<and>
   wsFire env (wsNextTimerId s + 1) (onclose code now (onopen now s))
     = onclose code now (onopen now s) \<and>
   currentDelayIndex (disconnect s) = 0 \<and> reconnectAttempts (disconnect s) = 0 \<and>
   isManualDisconnect (disconnect s) \<and> ws (disconnect s) = None \<and>
   reconnectLog (disconnect s) = reconnectLog s \<and>
   set (wsTimers (disconnect s)) \<subseteq> set (wsTimers s) \<and>
   reconnectLog (onclose code now (disconnect s)) = reconnectLog s \<and>
   set (wsTimers (onclose code now (disconnect s))) \<subseteq> set (wsTimers s) \<and>
   currentDelayIndex (onclose code now (disconnect s)) = 0"
    by (intro conjI) (simp_all, blast)
qed

theorem reconnect_backoff_ladder_witness:
  "ws_ok connecting_socket \<and> \<not> isManualDisconnect connecting_socket \<and>
   currentDelayIndex connecting_socket = 0 \<and>
   reconnectLog ((closeThenReconnect calm 1006 0 ^^ 5) connecting_socket)
     = [2000, 5000, 10000, 30000, 30000] \<and>
   ws_ok ((closeThenReconnect calm 1006 0 ^^ 3) connecting_socket) \<and>
   \<not> isManualDisconnect ((closeThenReconnect calm 1006 0 ^^ 3) connecting_socket) \<and>
   reconnectLog
     (onclose 1006 0
        (wsFire calm (wsNextTimerId ((closeThenReconnect calm 1006 0 ^^ 3) connecting_socket) + 1)
           (onopen 0 ((closeThenReconnect calm 1006 0 ^^ 3) connecting_socket))))
     = [2000, 5000, 10000, 2000] \<and>
   isManualDisconnect (disconnect ((closeThenReconnect calm 1006 0 ^^ 3) connecting_socket)) \<and>
   currentDelayIndex (disconnect ((closeThenReconnect calm 1006 0 ^^ 3) connecting_socket)) = 0 \<and>
   reconnectLog (onclose 1000 0 (disconnect ((closeThenReconnect calm 1006 0 ^^ 3) connecting_socket)))
     = [2000, 5000, 10000]"
proof -
  let ?s3 = "(closeThenReconnect calm 1006 0 ^^ 3) connecting_socket"
  have b: "ws_ok connecting_socket" "\<not> isManualDisconnect connecting_socket"
    "currentDelayIndex connecting_socket = 0" "reconnectLog connecting_socket = []"
    by (simp_all add: ws_ok_def connecting_socket_def connect_def calm_def newPPEWebSocket_def Let_def)
  have u5: "map (\<lambda>k. [2000, 5000, 10000, 30000 :: int] ! min k 3) [0..<5]
              = [2000, 5000, 10000, 30000, 30000]"
    by code_simp
  have u3: "map (\<lambda>k. [2000, 5000, 10000, 30000 :: int] ! min k 3) [0..<3] = [2000, 5000, 10000]"
    by code_simp
  from closeThenReconnect_iterate[OF b(1,2,3), where env=calm and code=1006 and now=0 and n=3]
  have s3: "ws_ok ?s3" "\<not> isManualDisconnect ?s3" by simp_all
  from reconnect_backoff_ladder[where s=connecting_socket and env=calm and code=1006 and now=0 and n=5] b
  have l5: "reconnectLog ((closeThenReconnect calm 1006 0 ^^ 5) connecting_socket)
     = [2000, 5000, 10000, 30000, 30000]"
    by (simp only: u5 append_Nil simp_thms)
  from reconnect_backoff_ladder[where s=connecting_socket and env=calm and code=1006 and now=0 and n=3] b
  have l3: "reconnectLog ?s3 = [2000, 5000, 10000]"
    by (simp only: u3 append_Nil simp_thms)
  from reconnect_backoff_ladder[where s="?s3" and env=calm and code=1006 and now=0 and n=0] s3
  have r: "reconnectLog (onclose 1006 0 (wsFire calm (wsNextTimerId ?s3 + 1) (onopen 0 ?s3)))
     = reconnectLog ?s3 @ [2000]"
    by blast
  from reconnect_backoff_ladder[where s="?s3" and env=calm and code=1000 and now=0 and n=0] s3
  have d: "isManualDisconnect (disconnect ?s3)" "currentDelayIndex (disconnect ?s3) = 0"
    "reconnectLog (onclose 1000 0 (disconnect ?s3)) = reconnectLog ?s3"
    by blast+
  from b s3 l5 r d show ?thesis by (simp add: l3)
qed

text \<open>
  Claim C6. The ladder and the stability window are as the claim says
  (\<open>reconnect_backoff_ladder\<close>), and a manual disconnect resets the backoff state at once.
  But \<open>attemptReconnect\<close> does not keep the identifier of its timer, and \<open>disconnect\<close>
  cancels the heartbeat and the stability timer only: a reconnect armed by an earlier
  closure stays scheduled after the manual disconnect, and when it fires \<open>connect\<close> clears
  the manual flag and opens a new socket.
\<close>

theorem manual_disconnect_leaves_reconnect_pending:
  "wsTimers (onclose 1006 0 connecting_socket)
     = [\<lparr>wt_id = 1, wt_delay = 2000, wt_callback = ReconnectTimer\<rparr>] \<and>
   isManualDisconnect closed_then_disconnected \<and>
   ws closed_then_disconnected = None \<and>
   currentDelayIndex closed_then_disconnected = 0 \<and>
   wsTimers closed_then_disconnected
     = [\<lparr>wt_id = 1, wt_delay = 2000, wt_callback = ReconnectTimer\<rparr>] \<and>
   ws (wsFire calm 1 closed_then_disconnected) = Some CONNECTING \<and>
   \<not> isManualDisconnect (wsFire calm 1 closed_then_disconnected) \<and>
   socketsCreated closed_then_disconnected = 1 \<and>
   socketsCreated (wsFire calm 1 closed_then_disconnected) = 2"
  by (simp add: closed_then_disconnected_def disconnect_def onclose_def attemptReconnect_def
      armTimer_def stopStableConnectionTimer_def stopHeartbeat_def clearWsTimer_def wsFire_def
      connecting_socket_def connect_def calm_def newPPEWebSocket_def reconnectDelays_def Let_def)

end
